theory Spec2Isabelle
  imports Main "HOL-Library.Sublist"
begin

section \<open>The page service of the application builder\<close>

text \<open>
  A shallow embedding of \<^verbatim>\<open>server/src/services/page.service.ts\<close>. The relational
  store behind the object-relational mapper is a record of four tables, each a list of
  rows in the store's natural order; every operation of the service takes the store and
  returns it updated, together with its result or the error it throws.

  \<^item> A transaction that throws is rolled back: the operation returns the error together with
    the store as it was before the writes made through the transaction's manager.
  \<^item> The callbacks of a \<^verbatim>\<open>Promise.all(xs.map(async ...))\<close> are taken in array order. The
    source leaves to the store the order in which it answers them; for the updates of
    \<open>updatePagesOrder\<close> and \<open>deletePage\<close> and for the first loop of the clone the
    callbacks touch different rows and never read what another one wrote. In the second
    loop of the clone every callback issues its save before any of them goes on, and the
    model runs them in these two steps.
  \<^item> The collaborating services and the persistence layer are not part of the file; what the
    service needs from them is modelled where it is used.
\<close>

subsection \<open>Rows\<close>

text \<open>
  Identifiers are the strings the service passes around. The configuration payload of a
  component, of a layout row and of an event handler is carried along as one opaque field.
\<close>

record page =
  page_id :: string
  page_name :: string
  page_handle :: string
  page_index :: int
  page_appVersionId :: string

record component =
  component_id :: string
  component_pageId :: string
  component_parent :: "string option"
  component_properties :: string

record layout =
  layout_id :: string
  layout_componentId :: string
  layout_dimensions :: string

text \<open>
  The \<^verbatim>\<open>event\<close> column of an event handler is a structured payload; the service reads
  its \<^verbatim>\<open>actionId\<close> and \<^verbatim>\<open>componentId\<close> and may find the payload itself, or either
  property, absent.
\<close>

record eventDefinition =
  actionId :: "string option"
  componentId :: "string option"
  eventOptions :: string

record eventHandler =
  event_id :: string
  event_sourceId :: string
  event_name :: string
  event_event :: "eventDefinition option"

text \<open>
  What \<^verbatim>\<open>AppsService.findAppFromVersion\<close> returns: an application whose
  \<^verbatim>\<open>editingVersion\<close> may be missing, with the home page that version records.
\<close>

record appVersion =
  homePageId :: "string option"

record app =
  editingVersion :: "appVersion option"

subsection \<open>Partial pages, JSON values and errors\<close>

text \<open>
  The argument of \<^verbatim>\<open>update(Page, id, partial)\<close>: the columns that the statement sets.
  A column that \<open>partial\<close> does not mention keeps its value.
\<close>

record pagePartial =
  set_id :: "string option"
  set_name :: "string option"
  set_handle :: "string option"
  set_index :: "int option"
  set_appVersionId :: "string option"

text \<open>
  The \<^verbatim>\<open>diff\<close> of an update payload is a JSON object, here its entries in key order.
\<close>

datatype json = JNull | JNum int | JStr string | JObj "(string \<times> json) list"

text \<open>
  An error thrown by the service is \<^verbatim>\<open>new Error(message)\<close>; \<open>TypeError\<close> is the
  error of reading a property of \<^verbatim>\<open>undefined\<close> or \<^verbatim>\<open>null\<close>, and \<open>QueryFailed\<close>
  a statement that the persistence layer rejects.
\<close>

datatype error = Error string | TypeError | QueryFailed

subsection \<open>The store\<close>

text \<open>
  \<open>findAppFromVersion\<close> is the answer of the application collaborator for each version
  id. A row saved without an id receives the id \<open>generatedId n\<close>, where \<open>n\<close> counts
  the ids handed out so far (\<open>generatedCount\<close>); which strings the store generates is
  left open. \<open>readColumns\<close> is the persistence layer's reading of a JavaScript object as
  the columns of a partial page: which keys are columns of the page table, which values a
  column accepts, coerces or rejects, and what becomes of an object that sets nothing, is
  decided by that layer, which is not part of the file, and is left open as well.
\<close>

record store =
  pages :: "page list"
  components :: "component list"
  layouts :: "layout list"
  eventHandlers :: "eventHandler list"
  findAppFromVersion :: "string \<Rightarrow> app option"
  generatedId :: "nat \<Rightarrow> string"
  generatedCount :: nat
  readColumns :: "(string \<times> json) list \<Rightarrow> error + pagePartial"

subsection \<open>Reads and writes of the page table\<close>

definition find_pages :: "store \<Rightarrow> string \<Rightarrow> page list" where
  \<comment> \<open>\<^verbatim>\<open>pageRepository.find({ appVersionId })\<close>\<close>
  "find_pages s appVersionId = filter (\<lambda>p. page_appVersionId p = appVersionId) (pages s)"

definition findOne :: "store \<Rightarrow> string \<Rightarrow> page option" where
  \<comment> \<open>\<^verbatim>\<open>pageRepository.findOne(id)\<close>\<close>
  "findOne s pid = find (\<lambda>p. page_id p = pid) (pages s)"

text \<open>
  \<^verbatim>\<open>update(Page, id, partial)\<close> sets, in every row with that id, the columns of
  \<open>partial\<close>.
\<close>

definition no_columns :: pagePartial where
  "no_columns = \<lparr>set_id = None, set_name = None, set_handle = None, set_index = None,
     set_appVersionId = None\<rparr>"

definition all_columns :: "page \<Rightarrow> pagePartial" where
  "all_columns p = \<lparr>set_id = Some (page_id p), set_name = Some (page_name p),
     set_handle = Some (page_handle p), set_index = Some (page_index p),
     set_appVersionId = Some (page_appVersionId p)\<rparr>"

definition apply_partial :: "pagePartial \<Rightarrow> page \<Rightarrow> page" where
  "apply_partial u p =
     \<lparr>page_id = (case set_id u of None \<Rightarrow> page_id p | Some v \<Rightarrow> v),
      page_name = (case set_name u of None \<Rightarrow> page_name p | Some v \<Rightarrow> v),
      page_handle = (case set_handle u of None \<Rightarrow> page_handle p | Some v \<Rightarrow> v),
      page_index = (case set_index u of None \<Rightarrow> page_index p | Some v \<Rightarrow> v),
      page_appVersionId = (case set_appVersionId u of None \<Rightarrow> page_appVersionId p | Some v \<Rightarrow> v)\<rparr>"

definition update_page :: "string \<Rightarrow> pagePartial \<Rightarrow> store \<Rightarrow> store" where
  "update_page pid u s =
     s\<lparr>pages := map (\<lambda>p. if page_id p = pid then apply_partial u p else p) (pages s)\<rparr>"

definition delete_page :: "store \<Rightarrow> string \<Rightarrow> nat \<times> store" where
  \<comment> \<open>\<^verbatim>\<open>pageRepository.delete(id)\<close>: the number of rows affected, and the store without them\<close>
  "delete_page s pid =
     (length (filter (\<lambda>p. page_id p = pid) (pages s)),
      s\<lparr>pages := filter (\<lambda>p. page_id p \<noteq> pid) (pages s)\<rparr>)"

definition save_page :: "store \<Rightarrow> page \<Rightarrow> page \<times> store" where
  \<comment> \<open>\<^verbatim>\<open>save\<close> of a page whose id is undefined: an insert under a generated id\<close>
  "save_page s p =
     (let saved = p\<lparr>page_id := generatedId s (generatedCount s)\<rparr>
      in (saved, s\<lparr>pages := pages s @ [saved], generatedCount := Suc (generatedCount s)\<rparr>))"

subsection \<open>The update payload\<close>

text \<open>
  \<open>updatePage\<close> hands the \<^verbatim>\<open>diff\<close> to the store as a partial page;
  \<open>updatePagesOrder\<close> reads it as a mapping from page ids to objects with an
  \<^verbatim>\<open>index\<close>.
\<close>

record updatePageDto =
  pageId :: string
  diff :: "(string \<times> json) list"

definition object_keys :: "(string \<times> json) list \<Rightarrow> string list" where
  "object_keys obj = map fst obj"

fun index_of_json :: "json \<Rightarrow> error + json option" where
  \<comment> \<open>\<^verbatim>\<open>value.index\<close>; \<open>None\<close> is \<^verbatim>\<open>undefined\<close>\<close>
  "index_of_json JNull = Inl TypeError"
| "index_of_json (JObj entries) = Inr (map_of entries ''index'')"
| "index_of_json (JNum n) = Inr None"
| "index_of_json (JStr v) = Inr None"

fun pagesToPage :: "(string \<times> json) list \<Rightarrow> error + (string \<times> json option) list" where
  \<comment> \<open>\<^verbatim>\<open>Object.keys(pages).map((pageId) => ({ id: pageId, index: pages[pageId].index }))\<close>\<close>
  "pagesToPage [] = Inr []"
| "pagesToPage ((pid, v) # rest) =
     (case index_of_json v of
        Inl e \<Rightarrow> Inl e
      | Inr idx \<Rightarrow>
          (case pagesToPage rest of
             Inl e \<Rightarrow> Inl e
           | Inr us \<Rightarrow> Inr ((pid, idx) # us)))"

subsection \<open>updatePage and updatePagesOrder\<close>

text \<open>
  \<open>updatePagesOrder\<close> issues one update per key of the mapping, each with the partial
  page \<^verbatim>\<open>{ id, index }\<close>, inside one transaction: an error leaves the store as it was.
  An \<^verbatim>\<open>index\<close> that is \<^verbatim>\<open>undefined\<close> reaches the store as a null value.
\<close>

fun update_order :: "(string \<times> json option) list \<Rightarrow> store \<Rightarrow> error + store" where
  "update_order [] s = Inr s"
| "update_order ((pid, idx) # rest) s =
     (case readColumns s
             [(''id'', JStr pid), (''index'', (case idx of None \<Rightarrow> JNull | Some j \<Rightarrow> j))] of
        Inl e \<Rightarrow> Inl e
      | Inr u \<Rightarrow> update_order rest (update_page pid u s))"

definition updatePagesOrder :: "store \<Rightarrow> (string \<times> json) list \<Rightarrow> string \<Rightarrow> (error + unit) \<times> store" where
  "updatePagesOrder s pgs appVersionId =
     (case pagesToPage pgs of
        Inl e \<Rightarrow> (Inl e, s)
      | Inr us \<Rightarrow>
          (case update_order us s of
             Inl e \<Rightarrow> (Inl e, s)
           | Inr s' \<Rightarrow> (Inr (), s')))"

definition updatePage :: "store \<Rightarrow> updatePageDto \<Rightarrow> string \<Rightarrow> (error + unit) \<times> store" where
  "updatePage s pageUpdates appVersionId =
     (if length (object_keys (diff pageUpdates)) > 1
      then updatePagesOrder s (diff pageUpdates) appVersionId
      else
        (case findOne s (pageId pageUpdates) of
           None \<Rightarrow> (Inl (Error ''Page not found''), s)
         | Some currentPage \<Rightarrow>
             (case readColumns s (diff pageUpdates) of
                Inl e \<Rightarrow> (Inl e, s)
              | Inr u \<Rightarrow> (Inr (), update_page (pageId pageUpdates) u s))))"

subsection \<open>deletePage\<close>

definition rearrangePagesOnDelete :: "page list \<Rightarrow> int \<Rightarrow> page list" where
  "rearrangePagesOnDelete pgs pageDeletedIndex =
     map (\<lambda>(index, page).
            if int index + 1 \<ge> pageDeletedIndex
            then page\<lparr>page_index := page_index page - 1\<rparr>
            else page)
         (enumerate 0 pgs)"

definition cascadeDeleteEvents :: "store \<Rightarrow> string \<Rightarrow> store" where
  \<comment> \<open>Modelled from the spec: the event collaborator's cascade delete, which is not part of
      this file, removes the event handlers whose source is the given id.\<close>
  "cascadeDeleteEvents s sourceId =
     s\<lparr>eventHandlers := filter (\<lambda>e. event_sourceId e \<noteq> sourceId) (eventHandlers s)\<rparr>"

definition deletePage :: "store \<Rightarrow> string \<Rightarrow> string \<Rightarrow> (error + unit) \<times> store" where
  "deletePage s pid appVersionId =
     (case findAppFromVersion s appVersionId of
        None \<Rightarrow> (Inl TypeError, s)
      | Some application \<Rightarrow>
          (case findOne s pid of
             None \<Rightarrow> (Inl (Error ''Page not found''), s)
           | Some pageExists \<Rightarrow>
               if (case editingVersion application of
                     None \<Rightarrow> False
                   | Some v \<Rightarrow> homePageId v = Some pid)
               then (Inl (Error ''Cannot delete home page''), s)
               else
                 (let s1 = cascadeDeleteEvents s (page_id pageExists);
                      pageDeletedIndex = page_index pageExists;
                      (affected, s2) = delete_page s1 pid
                  in if affected = 0 then (Inl (Error ''Page not deleted''), s2)
                     else
                       (let pgs = find_pages s2 (page_appVersionId pageExists);
                            rearrangedPages = rearrangePagesOnDelete pgs pageDeletedIndex
                        in (Inr (),
                            fold (\<lambda>page st. update_page (page_id page) (all_columns page) st)
                              rearrangedPages s2)))))"

subsection \<open>Strings\<close>

fun startsWith :: "string \<Rightarrow> string \<Rightarrow> bool" where
  "startsWith s [] = True"
| "startsWith [] (c # t) = False"
| "startsWith (a # s) (c # t) = (a = c \<and> startsWith s t)"

fun string_includes :: "string \<Rightarrow> string \<Rightarrow> bool" where
  \<comment> \<open>\<^verbatim>\<open>s.includes(t)\<close>: \<open>t\<close> occurs in \<open>s\<close> as a substring\<close>
  "string_includes [] t = (t = [])"
| "string_includes (a # s) t = (startsWith (a # s) t \<or> string_includes s t)"

definition digit :: "nat \<Rightarrow> char" where
  "digit d = ''0123456789'' ! d"

function decimal :: "nat \<Rightarrow> string" where
  \<comment> \<open>the decimal numeral a template literal prints for a length\<close>
  "decimal n = (if n < 10 then [digit n] else decimal (n div 10) @ [digit (n mod 10)])"
  by pat_completeness auto
termination
  by (relation "measure (\<lambda>n. n)") auto

subsection \<open>Saving rows without an id\<close>

definition save_component :: "store \<Rightarrow> component \<Rightarrow> component \<times> store" where
  "save_component s c =
     (let saved = c\<lparr>component_id := generatedId s (generatedCount s)\<rparr>
      in (saved,
          s\<lparr>components := components s @ [saved], generatedCount := Suc (generatedCount s)\<rparr>))"

definition save_layout :: "layout \<Rightarrow> store \<Rightarrow> store" where
  "save_layout l s =
     s\<lparr>layouts := layouts s @ [l\<lparr>layout_id := generatedId s (generatedCount s)\<rparr>],
       generatedCount := Suc (generatedCount s)\<rparr>"

definition save_event :: "eventHandler \<Rightarrow> store \<Rightarrow> store" where
  "save_event e s =
     s\<lparr>eventHandlers := eventHandlers s @ [e\<lparr>event_id := generatedId s (generatedCount s)\<rparr>],
       generatedCount := Suc (generatedCount s)\<rparr>"

definition update_component_parent :: "string \<Rightarrow> string \<Rightarrow> store \<Rightarrow> store" where
  \<comment> \<open>\<^verbatim>\<open>manager.update(Component, id, { parent })\<close>\<close>
  "update_component_parent cid parent s =
     s\<lparr>components :=
         map (\<lambda>c. if component_id c = cid then c\<lparr>component_parent := Some parent\<rparr> else c)
           (components s)\<rparr>"

definition findAllEventsWithSourceId :: "store \<Rightarrow> string \<Rightarrow> eventHandler list" where
  \<comment> \<open>Modelled from the spec: the event collaborator's lookup, which is not part of this
      file, returns the event handlers whose source is the given id.\<close>
  "findAllEventsWithSourceId s sourceId =
     filter (\<lambda>e. event_sourceId e = sourceId) (eventHandlers s)"

subsection \<open>clonePageEventsAndComponents\<close>

text \<open>
  The rewrite both event loops perform on a loaded event handler: the component id of a
  \<^verbatim>\<open>control-component\<close> action is replaced by what the id map holds for it, which is
  \<^verbatim>\<open>undefined\<close> for an id the map does not hold.
\<close>

definition remap_event :: "(string \<rightharpoonup> string) \<Rightarrow> eventHandler \<Rightarrow> eventHandler" where
  "remap_event componentsIdMap e =
     (case event_event e of
        None \<Rightarrow> e
      | Some eventDef \<Rightarrow>
          if actionId eventDef = Some ''control-component''
          then e\<lparr>event_event :=
                  Some (eventDef\<lparr>componentId :=
                          (case componentId eventDef of
                             None \<Rightarrow> None
                           | Some cid \<Rightarrow> componentsIdMap cid)\<rparr>)\<rparr>
          else e)"

definition clone_page_events :: "string \<Rightarrow> (string \<rightharpoonup> string) \<Rightarrow> eventHandler list \<Rightarrow> store \<Rightarrow> store" where
  \<comment> \<open>the first loop: the events of the page itself\<close>
  "clone_page_events clonePageId componentsIdMap pageEvents s =
     fold (\<lambda>e st. save_event ((remap_event componentsIdMap e)\<lparr>event_sourceId := clonePageId\<rparr>) st)
       pageEvents s"

text \<open>
  The second loop, one callback per component of the page. \<^verbatim>\<open>Promise.all\<close> starts every
  callback before any of them continues, so the saves of all the components are issued
  first, in array order; a callback goes on only when its save has been answered. The
  first part of a callback (lines 121 to 124) saves the component under a new id and
  records the pair in the id map; the rest of it (lines 125 to 152) reads the layout rows
  and the event handlers of the component, rebinds them to the new id and saves them. The
  model runs the first part of every callback, then the rest of every callback, both in
  array order: when a callback rewrites the events of its component, the id map holds
  every component of the page. Identifiers are store-generated strings, so a lookup in the
  id map is a lookup of that string and nothing else (no component is named like a
  property that every JavaScript object inherits).
\<close>

definition save_clone ::
  "string \<Rightarrow> component \<Rightarrow> (string \<rightharpoonup> string) \<Rightarrow> store \<Rightarrow> component \<times> (string \<rightharpoonup> string) \<times> store" where
  \<comment> \<open>the first part of a callback\<close>
  "save_clone clonePageId c componentsIdMap s =
     (let (newComponent, s1) = save_component s (c\<lparr>component_pageId := clonePageId\<rparr>)
      in (newComponent, componentsIdMap(component_id c \<mapsto> component_id newComponent), s1))"

fun save_clones ::
  "string \<Rightarrow> component list \<Rightarrow> (string \<rightharpoonup> string) \<Rightarrow> store \<Rightarrow> component list \<times> (string \<rightharpoonup> string) \<times> store" where
  "save_clones clonePageId [] componentsIdMap s = ([], componentsIdMap, s)"
| "save_clones clonePageId (c # cs) componentsIdMap s =
     (let (newComponent, componentsIdMap', s') = save_clone clonePageId c componentsIdMap s;
          (clonedComponents, componentsIdMap'', s'') =
             save_clones clonePageId cs componentsIdMap' s'
      in (newComponent # clonedComponents, componentsIdMap'', s''))"

definition clone_rows :: "(string \<rightharpoonup> string) \<Rightarrow> component \<times> component \<Rightarrow> store \<Rightarrow> store" where
  \<comment> \<open>the rest of the callback of a component, given the component as saved\<close>
  "clone_rows componentsIdMap cn s =
     (let c = fst cn;
          newComponent = snd cn;
          componentLayouts = filter (\<lambda>l. layout_componentId l = component_id c) (layouts s);
          clonedLayouts =
            map (\<lambda>l. l\<lparr>layout_componentId := component_id newComponent\<rparr>) componentLayouts;
          clonedComponentEvents = findAllEventsWithSourceId s (component_id c);
          clonedEvents =
            map (\<lambda>e. (remap_event componentsIdMap e)\<lparr>event_sourceId := component_id newComponent\<rparr>)
              clonedComponentEvents;
          s2 = fold save_layout clonedLayouts s
      in fold save_event clonedEvents s2)"

definition clone_components ::
  "string \<Rightarrow> component list \<Rightarrow> (string \<rightharpoonup> string) \<Rightarrow> store \<Rightarrow> component list \<times> (string \<rightharpoonup> string) \<times> store" where
  "clone_components clonePageId comps componentsIdMap s =
     (let (clonedComponents, componentsIdMap', s1) = save_clones clonePageId comps componentsIdMap s;
          s2 = fold (clone_rows componentsIdMap') (zip comps clonedComponents) s1
      in (clonedComponents, componentsIdMap', s2))"

definition truthy :: "string option \<Rightarrow> bool" where
  \<comment> \<open>\<^verbatim>\<open>if (componentId)\<close>: neither \<^verbatim>\<open>undefined\<close> nor the empty string\<close>
  "truthy v = (case v of None \<Rightarrow> False | Some x \<Rightarrow> x \<noteq> [])"

fun remap_parents :: "(string \<rightharpoonup> string) \<Rightarrow> component list \<Rightarrow> store \<Rightarrow> store" where
  \<comment> \<open>the last loop: the parent of every cloned component, through the id map\<close>
  "remap_parents componentsIdMap [] s = s"
| "remap_parents componentsIdMap (c # cs) s =
     (let cid = (case component_parent c of None \<Rightarrow> None | Some p \<Rightarrow> componentsIdMap p)
      in remap_parents componentsIdMap cs
           (if truthy cid then update_component_parent (component_id c) (the cid) s else s))"

definition pageComponents :: "store \<Rightarrow> string \<Rightarrow> component list" where
  \<comment> \<open>\<^verbatim>\<open>manager.find(Component, { pageId })\<close>\<close>
  "pageComponents s pid = filter (\<lambda>c. component_pageId c = pid) (components s)"

definition clonePageEventsAndComponents :: "store \<Rightarrow> string \<Rightarrow> string \<Rightarrow> store" where
  "clonePageEventsAndComponents s pid clonePageId =
     (let comps = pageComponents s pid;
          pageEvents = findAllEventsWithSourceId s pid;
          componentsIdMap = Map.empty;
          s1 = clone_page_events clonePageId componentsIdMap pageEvents s;
          (clonedComponents, componentsIdMap', s2) =
             clone_components clonePageId comps componentsIdMap s1
      in remap_parents componentsIdMap' clonedComponents s2)"

subsection \<open>clonePage\<close>

definition pageNameORHandleExists :: "page \<Rightarrow> page list \<Rightarrow> page list" where
  \<comment> \<open>the pages whose name or handle contains the name or handle a first copy would get\<close>
  "pageNameORHandleExists pageToClone allPages =
     filter (\<lambda>page. string_includes (page_name page) (page_name pageToClone @ '' (copy)'') \<or>
                    string_includes (page_handle page) (page_handle pageToClone @ ''-copy''))
       allPages"

definition copy_name :: "page \<Rightarrow> page list \<Rightarrow> string \<times> string" where
  \<comment> \<open>the name and the handle of the clone, given the pages of the version\<close>
  "copy_name pageToClone allPages =
     (let pageName = page_name pageToClone @ '' (copy)'';
          pageHandle = page_handle pageToClone @ ''-copy'';
          existing = pageNameORHandleExists pageToClone allPages
      in if length existing > 0
         then (page_name pageToClone @ '' (copy '' @ decimal (length existing) @ '')'',
               page_handle pageToClone @ ''-copy-'' @ decimal (length existing))
         else (pageName, pageHandle))"

text \<open>
  \<open>clonePage\<close> returns the page row it inserted together with the final store; the
  listing of pages and events the service hands back is a read of that store.
\<close>

definition clonePage :: "store \<Rightarrow> string \<Rightarrow> string \<Rightarrow> (error + page) \<times> store" where
  "clonePage s pid appVersionId =
     (case findOne s pid of
        None \<Rightarrow> (Inl (Error ''Page not found''), s)
      | Some pageToClone \<Rightarrow>
          (let (pageName, pageHandle) = copy_name pageToClone (find_pages s appVersionId);
               newPage = \<lparr>page_id = [], page_name = pageName, page_handle = pageHandle,
                          page_index = page_index pageToClone + 1,
                          page_appVersionId = appVersionId\<rparr>;
               (clonedpage, s1) = save_page s newPage
           in (Inr clonedpage, clonePageEventsAndComponents s1 pid (page_id clonedpage))))"

subsection \<open>Properties of stores used below\<close>

definition one_based :: "page list \<Rightarrow> bool" where
  \<comment> \<open>the rows carry the indices 1, 2, 3, ... in the order of the list\<close>
  "one_based pgs \<longleftrightarrow> map page_index pgs = map (\<lambda>i. int i + 1) [0..<length pgs]"

definition ids_in_use :: "store \<Rightarrow> string set" where
  \<comment> \<open>the ids of pages and components, and every id a row refers to as its page, its
      component or its source\<close>
  "ids_in_use s =
     page_id ` set (pages s) \<union> component_id ` set (components s)
     \<union> component_pageId ` set (components s)
     \<union> layout_componentId ` set (layouts s)
     \<union> event_sourceId ` set (eventHandlers s)"

definition generates_fresh_ids :: "store \<Rightarrow> bool" where
  \<comment> \<open>the store never generates an id twice, nor the empty string, nor an id in use\<close>
  "generates_fresh_ids s \<longleftrightarrow>
     inj (generatedId s) \<and>
     (\<forall>n\<ge>generatedCount s. generatedId s n \<noteq> [] \<and> generatedId s n \<notin> ids_in_use s)"




definition cloned_components :: "store \<Rightarrow> store \<Rightarrow> component list" where
  \<comment> \<open>the rows a clone has appended to the component table, in the order of their originals\<close>
  "cloned_components s s' = drop (length (components s)) (components s')"

definition remapped :: "(string \<rightharpoonup> string) \<Rightarrow> component \<Rightarrow> component" where
  \<comment> \<open>a cloned component after the last loop of the clone has looked at it\<close>
  "remapped componentsIdMap c =
     (let cid = (case component_parent c of None \<Rightarrow> None | Some p \<Rightarrow> componentsIdMap p)
      in if truthy cid then c\<lparr>component_parent := cid\<rparr> else c)"

subsection \<open>Example stores\<close>

definition example_generatedId :: "nat \<Rightarrow> string" where
  "example_generatedId n = CHR ''#'' # decimal n"

text \<open>
  The example stores read a JSON object as columns in the plain way: a value of the
  column's own type is accepted, a number sent for a text column is stored as its decimal
  text, a decimal numeral sent as text for the index is read as that number, and anything
  else, like an object that sets nothing, is rejected.
\<close>

definition text_of_integer :: "int \<Rightarrow> string" where
  "text_of_integer n = (if n < 0 then CHR ''-'' # decimal (nat (- n)) else decimal (nat n))"

definition digit_value :: "char \<Rightarrow> nat option" where
  "digit_value c =
     map_of [(CHR ''0'', 0), (CHR ''1'', 1), (CHR ''2'', 2), (CHR ''3'', 3), (CHR ''4'', 4),
             (CHR ''5'', 5), (CHR ''6'', 6), (CHR ''7'', 7), (CHR ''8'', 8), (CHR ''9'', 9)] c"

fun digits_value :: "string \<Rightarrow> nat \<Rightarrow> nat option" where
  "digits_value [] acc = Some acc"
| "digits_value (c # cs) acc =
     (case digit_value c of None \<Rightarrow> None | Some d \<Rightarrow> digits_value cs (10 * acc + d))"

definition integer_of_text :: "string \<Rightarrow> int option" where
  "integer_of_text t =
     (case t of
        [] \<Rightarrow> None
      | c # cs \<Rightarrow>
          if c = CHR ''-''
          then (if cs = [] then None else map_option (\<lambda>n. - int n) (digits_value cs 0))
          else map_option int (digits_value t 0))"

fun example_column :: "string \<times> json \<Rightarrow> pagePartial \<Rightarrow> error + pagePartial" where
  "example_column (k, JStr v) u =
     (if k = ''id'' then Inr (u\<lparr>set_id := Some v\<rparr>)
      else if k = ''name'' then Inr (u\<lparr>set_name := Some v\<rparr>)
      else if k = ''handle'' then Inr (u\<lparr>set_handle := Some v\<rparr>)
      else if k = ''appVersionId'' then Inr (u\<lparr>set_appVersionId := Some v\<rparr>)
      else if k = ''index''
      then (case integer_of_text v of
              None \<Rightarrow> Inl QueryFailed
            | Some n \<Rightarrow> Inr (u\<lparr>set_index := Some n\<rparr>))
      else Inl QueryFailed)"
| "example_column (k, JNum n) u =
     (if k = ''index'' then Inr (u\<lparr>set_index := Some n\<rparr>)
      else if k = ''name'' then Inr (u\<lparr>set_name := Some (text_of_integer n)\<rparr>)
      else if k = ''handle'' then Inr (u\<lparr>set_handle := Some (text_of_integer n)\<rparr>)
      else Inl QueryFailed)"
| "example_column (k, JNull) u = Inl QueryFailed"
| "example_column (k, JObj entries) u = Inl QueryFailed"

fun example_columns :: "(string \<times> json) list \<Rightarrow> pagePartial \<Rightarrow> error + pagePartial" where
  "example_columns [] u = Inr u"
| "example_columns (kv # rest) u =
     (case example_column kv u of Inl e \<Rightarrow> Inl e | Inr u' \<Rightarrow> example_columns rest u')"

definition example_readColumns :: "(string \<times> json) list \<Rightarrow> error + pagePartial" where
  "example_readColumns obj = (if obj = [] then Inl QueryFailed else example_columns obj no_columns)"

definition example_apps :: "string \<Rightarrow> app option" where
  \<comment> \<open>version \<open>V\<close> has home page \<open>A\<close>; version \<open>W\<close> records a home page \<open>Z\<close>\<close>
  "example_apps v =
     (if v = ''V'' then Some \<lparr>editingVersion = Some \<lparr>homePageId = Some ''A''\<rparr>\<rparr>
      else if v = ''W'' then Some \<lparr>editingVersion = Some \<lparr>homePageId = Some ''Z''\<rparr>\<rparr>
      else None)"

definition example_page :: "string \<Rightarrow> string \<Rightarrow> string \<Rightarrow> int \<Rightarrow> page" where
  "example_page i n h k =
     \<lparr>page_id = i, page_name = n, page_handle = h, page_index = k, page_appVersionId = ''V''\<rparr>"

definition pages_only :: "page list \<Rightarrow> store" where
  "pages_only pgs =
     \<lparr>pages = pgs, components = [], layouts = [], eventHandlers = [],
      findAppFromVersion = example_apps, generatedId = example_generatedId,
      generatedCount = 0, readColumns = example_readColumns\<rparr>"

definition zero_based_store :: store where
  "zero_based_store =
     pages_only [example_page ''A'' ''Home'' ''home'' 0, example_page ''B'' ''Cart'' ''cart'' 1,
                 example_page ''C'' ''Help'' ''help'' 2]"

definition one_based_store :: store where
  "one_based_store =
     pages_only [example_page ''A'' ''Home'' ''home'' 1, example_page ''B'' ''Cart'' ''cart'' 2,
                 example_page ''C'' ''Help'' ''help'' 3]"

definition reorder_payload :: updatePageDto where
  \<comment> \<open>a reordering of the pages \<open>A\<close> and \<open>C\<close>, addressed to a page \<open>Z\<close> that no store below has\<close>
  "reorder_payload =
     \<lparr>pageId = ''Z'',
      diff = [(''A'', JObj [(''index'', JNum 3)]), (''C'', JObj [(''index'', JNum 1)])]\<rparr>"

definition rename_payload :: updatePageDto where
  "rename_payload = \<lparr>pageId = ''Z'', diff = [(''name'', JStr ''Checkout'')]\<rparr>"

definition home_copy_store :: store where
  \<comment> \<open>version \<open>V\<close> with the page Home and an earlier copy of it\<close>
  "home_copy_store =
     pages_only [example_page ''A'' ''Home'' ''home'' 1,
                 example_page ''B'' ''Home (copy)'' ''home-copy'' 2]"

definition control :: "string \<Rightarrow> eventDefinition" where
  "control target =
     \<lparr>actionId = Some ''control-component'', componentId = Some target, eventOptions = ''show''\<rparr>"

definition widgets_store :: store where
  \<comment> \<open>page \<open>A\<close> holds a container \<open>c1\<close> and, inside it, a button \<open>c2\<close>; loading the page
      controls the button, clicking the button controls the container\<close>
  "widgets_store =
     \<lparr>pages = [example_page ''A'' ''Home'' ''home'' 1],
      components =
        [\<lparr>component_id = ''c1'', component_pageId = ''A'', component_parent = None,
          component_properties = ''Container''\<rparr>,
         \<lparr>component_id = ''c2'', component_pageId = ''A'', component_parent = Some ''c1'',
          component_properties = ''Button''\<rparr>],
      layouts =
        [\<lparr>layout_id = ''l1'', layout_componentId = ''c1'', layout_dimensions = ''desktop''\<rparr>,
         \<lparr>layout_id = ''l2'', layout_componentId = ''c2'', layout_dimensions = ''desktop''\<rparr>,
         \<lparr>layout_id = ''l3'', layout_componentId = ''c2'', layout_dimensions = ''mobile''\<rparr>],
      eventHandlers =
        [\<lparr>event_id = ''e1'', event_sourceId = ''A'', event_name = ''onPageLoad'',
          event_event = Some (control ''c2'')\<rparr>,
         \<lparr>event_id = ''e2'', event_sourceId = ''c2'', event_name = ''onClick'',
          event_event = Some (control ''c1'')\<rparr>,
         \<lparr>event_id = ''e3'', event_sourceId = ''c1'', event_name = ''onHover'',
          event_event = Some \<lparr>actionId = Some ''show-alert'', componentId = None,
                               eventOptions = ''hello''\<rparr>\<rparr>],
      findAppFromVersion = example_apps, generatedId = example_generatedId,
      generatedCount = 0, readColumns = example_readColumns\<rparr>"

section \<open>Deleting a page\<close>

lemmas example_defs =
  zero_based_store_def one_based_store_def pages_only_def example_page_def example_apps_def
  example_readColumns_def

lemmas page_table_defs =
  findOne_def find_pages_def update_page_def apply_partial_def all_columns_def delete_page_def

lemma apply_all_columns: "apply_partial (all_columns r) p = r"
  by (simp add: apply_partial_def all_columns_def)

lemma pages_update_all:
  "pages (update_page (page_id r) (all_columns r) s) =
     map (\<lambda>p. if page_id p = page_id r then r else p) (pages s)"
  by (simp add: update_page_def apply_all_columns)

lemma fold_update_pages:
  "distinct (map page_id rs) \<Longrightarrow>
   pages (fold (\<lambda>r st. update_page (page_id r) (all_columns r) st) rs s) =
     map (\<lambda>p. case find (\<lambda>r. page_id r = page_id p) rs of None \<Rightarrow> p | Some r \<Rightarrow> r) (pages s)"
proof (induction rs arbitrary: s)
  case Nil
  then show ?case by simp
next
  case (Cons r rs)
  have "page_id r \<notin> page_id ` set rs" using Cons.prems by simp
  then have "\<forall>x\<in>set rs. page_id x \<noteq> page_id r" by (metis imageI)
  then have nf: "find (\<lambda>x. page_id x = page_id r) rs = None"
    by (simp add: find_None_iff)
  show ?case
    using Cons.prems
    by (simp add: Cons.IH pages_update_all nf)
qed

lemma filter_remove_nth:
  "distinct (map f xs) \<Longrightarrow> k < length xs \<Longrightarrow>
   filter (\<lambda>x. f x \<noteq> f (xs ! k)) xs = take k xs @ drop (Suc k) xs"
proof (induction xs arbitrary: k)
  case Nil
  then show ?case by simp
next
  case (Cons x xs)
  show ?case
  proof (cases k)
    case 0
    have "f x \<notin> f ` set xs" using Cons.prems(1) by simp
    then have "\<forall>y\<in>set xs. f y \<noteq> f x" by (metis imageI)
    then have "filter (\<lambda>y. f y \<noteq> f x) xs = xs"
      by (simp add: filter_id_conv)
    with 0 show ?thesis by simp
  next
    case (Suc j)
    have "f x \<noteq> f (xs ! j)" using Cons.prems Suc by (auto simp: image_iff)
    with Suc Cons show ?thesis by simp
  qed
qed

lemma rearrange_nth:
  "i < length pgs \<Longrightarrow>
   rearrangePagesOnDelete pgs d ! i =
     (if int i + 1 \<ge> d then (pgs ! i)\<lparr>page_index := page_index (pgs ! i) - 1\<rparr> else pgs ! i)"
  by (simp add: rearrangePagesOnDelete_def nth_enumerate_eq)

lemma rearrange_length: "length (rearrangePagesOnDelete pgs d) = length pgs"
  by (simp add: rearrangePagesOnDelete_def)

lemma rearrange_ids: "map page_id (rearrangePagesOnDelete pgs d) = map page_id pgs"
  by (rule nth_equalityI) (simp_all add: rearrange_length rearrange_nth)

lemma rearrange_versions:
  "map page_appVersionId (rearrangePagesOnDelete pgs d) = map page_appVersionId pgs"
  by (rule nth_equalityI) (simp_all add: rearrange_length rearrange_nth)

lemma findOne_SomeD:
  "findOne s pid = Some p \<Longrightarrow> p \<in> set (pages s) \<and> page_id p = pid"
  by (auto simp: findOne_def find_Some_iff)

text \<open>
  C1 (as stated). After a successful \<open>deletePage\<close> the indices of the remaining pages are
  dense and start at the minimum they had before; deleting B from A(0), B(1), C(2) leaves
  A(0), C(1). On the code the scenario ends with A at index -1 and C at index 1: the page
  at list position \<open>i\<close> is decremented when \<open>i + 1\<close> reaches the deleted index, so the
  page in front of the deleted one is decremented too when counting starts at 0.
\<close>

theorem deletePage_zero_based_counterexample:
  "fst (deletePage zero_based_store ''B'' ''V'') = Inr () \<and>
   map page_index (pages (snd (deletePage zero_based_store ''B'' ''V''))) = [- 1, 1] \<and>
   map page_index (pages (snd (deletePage zero_based_store ''B'' ''V''))) \<noteq> [0, 1]"
  by (simp add: example_defs page_table_defs deletePage_def cascadeDeleteEvents_def
      rearrangePagesOnDelete_def)


text \<open>
  C1 (amended). When the pages of the version carry, in the order the store returns them,
  the indices 1, 2, ..., n, and page ids are unique, a successful \<open>deletePage\<close> leaves the
  remaining pages of that version in the same order with the indices 1, ..., n - 1.
\<close>

theorem deletePage_one_based:
  assumes ok: "deletePage s pid v = (Inr (), s')"
    and p: "findOne s pid = Some p"
    and dist: "distinct (map page_id (pages s))"
    and ob: "one_based (find_pages s (page_appVersionId p))"
  shows "one_based (find_pages s' (page_appVersionId p)) \<and>
         map page_id (find_pages s' (page_appVersionId p)) =
           filter (\<lambda>i. i \<noteq> pid) (map page_id (find_pages s (page_appVersionId p)))"
proof -
  define V where "V = page_appVersionId p"
  define ps where "ps = find_pages s V"
  define s2 where "s2 = snd (delete_page (cascadeDeleteEvents s (page_id p)) pid)"
  define ps2 where "ps2 = find_pages s2 V"
  define rs where "rs = rearrangePagesOnDelete ps2 (page_index p)"
  have pin: "p \<in> set (pages s)" and pid: "page_id p = pid"
    using findOne_SomeD[OF p] by simp_all
  have pages2: "pages s2 = filter (\<lambda>q. page_id q \<noteq> pid) (pages s)"
    by (simp add: s2_def delete_page_def cascadeDeleteEvents_def)
  have s': "s' = fold (\<lambda>page st. update_page (page_id page) (all_columns page) st) rs s2"
    using ok p
    by (auto simp: deletePage_def Let_def s2_def rs_def ps2_def V_def
        split: option.splits if_splits prod.splits)
  have dist2: "distinct (map page_id (pages s2))"
    using dist by (simp add: pages2 distinct_map_filter)
  have ps2_eq: "ps2 = filter (\<lambda>q. page_id q \<noteq> pid) ps"
    by (simp add: ps2_def ps_def find_pages_def pages2 conj_commute)
  have dps: "distinct (map page_id ps)"
    using dist by (simp add: ps_def find_pages_def distinct_map_filter)
  have dps2: "distinct (map page_id ps2)"
    using dist2 by (simp add: ps2_def find_pages_def distinct_map_filter)
  have drs: "distinct (map page_id rs)"
    using dps2 by (simp add: rs_def rearrange_ids)
  have "p \<in> set ps" using pin by (simp add: ps_def find_pages_def V_def)
  then obtain k where k: "k < length ps" "ps ! k = p" by (auto simp: in_set_conv_nth)
  have ps2_td: "ps2 = take k ps @ drop (Suc k) ps"
    using filter_remove_nth[OF dps k(1)] k(2) pid by (simp add: ps2_eq)
  have idx: "\<And>i. i < length ps \<Longrightarrow> page_index (ps ! i) = int i + 1"
  proof -
    fix i assume i: "i < length ps"
    from ob have "map page_index ps ! i = map (\<lambda>i. int i + 1) [0..<length ps] ! i"
      by (simp add: one_based_def ps_def V_def)
    with i show "page_index (ps ! i) = int i + 1" by simp
  qed
  have d: "page_index p = int k + 1" using idx[OF k(1)] k(2) by simp
  have len2: "Suc (length ps2) = length ps" using k(1) by (simp add: ps2_td)
  have rs_idx: "\<And>i. i < length rs \<Longrightarrow> page_index (rs ! i) = int i + 1"
  proof -
    fix i assume "i < length rs"
    then have i: "i < length ps2" by (simp add: rs_def rearrange_length)
    show "page_index (rs ! i) = int i + 1"
    proof (cases "i < k")
      case True
      then have "ps2 ! i = ps ! i" using k(1) by (simp add: ps2_td nth_append)
      moreover have "i < length ps" using True k(1) by simp
      ultimately show ?thesis using True i d idx
        by (simp add: rs_def rearrange_nth)
    next
      case False
      then have "ps2 ! i = ps ! Suc i" using k(1) 
        by (simp add: ps2_td nth_append min_def)
      moreover have "Suc i < length ps" using i len2 by simp
      ultimately show ?thesis using False i d idx[of "Suc i"]
        by (simp add: rs_def rearrange_nth)
    qed
  qed
  have rs_ob: "one_based rs"
    unfolding one_based_def by (rule nth_equalityI) (simp_all add: rs_idx)
  \<comment> \<open>the rows of the version after the updates are the rearranged rows\<close>
  let ?F = "\<lambda>q. case find (\<lambda>r. page_id r = page_id q) rs of None \<Rightarrow> q | Some r \<Rightarrow> r"
  have pages': "pages s' = map ?F (pages s2)"
    by (simp add: s' fold_update_pages[OF drs])
  have F_in: "\<And>i. i < length ps2 \<Longrightarrow> ?F (ps2 ! i) = rs ! i"
  proof -
    fix i assume i: "i < length ps2"
    have ir: "i < length rs" using i by (simp add: rs_def rearrange_length)
    have ids: "page_id (rs ! i) = page_id (ps2 ! i)"
      using i by (simp add: rs_def rearrange_nth)
    have "find (\<lambda>r. page_id r = page_id (ps2 ! i)) rs = Some (rs ! i)"
    proof -
      have "\<And>j. j < i \<Longrightarrow> page_id (rs ! j) \<noteq> page_id (rs ! i)"
        using drs ir by (auto simp: distinct_conv_nth)
      then show ?thesis using ir ids by (auto simp: find_Some_iff)
    qed
    then show "?F (ps2 ! i) = rs ! i" by simp
  qed
  have F_out: "\<And>q. q \<in> set (pages s2) \<Longrightarrow> page_appVersionId q \<noteq> V \<Longrightarrow> ?F q = q"
  proof -
    fix q assume q: "q \<in> set (pages s2)" and nv: "page_appVersionId q \<noteq> V"
    have "find (\<lambda>r. page_id r = page_id q) rs = None"
    proof (rule ccontr)
      assume "find (\<lambda>r. page_id r = page_id q) rs \<noteq> None"
      then obtain r where "r \<in> set rs" "page_id r = page_id q"
        by (auto simp: find_None_iff)
      then have "page_id q \<in> set (map page_id ps2)"
        by (metis rs_def rearrange_ids image_eqI set_map)
      then obtain q' where q': "q' \<in> set ps2" "page_id q' = page_id q" by auto
      then have "q' \<in> set (pages s2)" "page_appVersionId q' = V"
        by (simp_all add: ps2_def find_pages_def)
      with q q' dist2 have "q' = q" by (simp add: inj_on_def distinct_map)
      with nv \<open>page_appVersionId q' = V\<close> show False by simp
    qed
    then show "?F q = q" by simp
  qed
  have rsV: "\<And>r. r \<in> set rs \<Longrightarrow> page_appVersionId r = V"
  proof -
    fix r assume "r \<in> set rs"
    then have "page_appVersionId r \<in> set (map page_appVersionId ps2)"
      by (metis rs_def rearrange_versions image_eqI set_map)
    then show "page_appVersionId r = V" by (auto simp: ps2_def find_pages_def)
  qed
  have F_ver: "\<And>q. q \<in> set (pages s2) \<Longrightarrow> (page_appVersionId (?F q) = V) = (page_appVersionId q = V)"
  proof -
    fix q assume q: "q \<in> set (pages s2)"
    show "(page_appVersionId (?F q) = V) = (page_appVersionId q = V)"
    proof (cases "page_appVersionId q = V")
      case True
      then have "q \<in> set ps2" using q by (simp add: ps2_def find_pages_def)
      then obtain i where "i < length ps2" "ps2 ! i = q" by (auto simp: in_set_conv_nth)
      then have "?F q = rs ! i" "i < length rs" using F_in by (auto simp: rs_def rearrange_length)
      then show ?thesis using True rsV by (metis nth_mem)
    next
      case False
      then show ?thesis using F_out[OF q] by simp
    qed
  qed
  have "find_pages s' V = map ?F ps2"
    unfolding find_pages_def pages' ps2_def filter_map
    by (rule arg_cong[where f="map ?F"], rule filter_cong) (simp_all add: F_ver)
  also have "\<dots> = rs"
    by (rule nth_equalityI) (simp_all add: rs_def rearrange_length F_in[unfolded rs_def])
  finally have fin: "find_pages s' V = rs" .
  have "map page_id rs = filter (\<lambda>i. i \<noteq> pid) (map page_id ps)"
    by (simp add: rs_def rearrange_ids ps2_eq filter_map comp_def)
  with fin rs_ob show ?thesis by (simp add: V_def ps_def)
qed

theorem deletePage_one_based_witness:
  "deletePage one_based_store ''B'' ''V'' =
     (Inr (), one_based_store\<lparr>pages := [example_page ''A'' ''Home'' ''home'' 1,
                                         example_page ''C'' ''Help'' ''help'' 2]\<rparr>) \<and>
   findOne one_based_store ''B'' = Some (example_page ''B'' ''Cart'' ''cart'' 2) \<and>
   distinct (map page_id (pages one_based_store)) \<and>
   one_based (find_pages one_based_store ''V'') \<and>
   one_based (find_pages (one_based_store\<lparr>pages := [example_page ''A'' ''Home'' ''home'' 1,
                                         example_page ''C'' ''Help'' ''help'' 2]\<rparr>) ''V'') \<and>
   map page_id (find_pages (one_based_store\<lparr>pages := [example_page ''A'' ''Home'' ''home'' 1,
                                         example_page ''C'' ''Help'' ''help'' 2]\<rparr>) ''V'') = [''A'', ''C'']"
proof -
  let ?s' = "one_based_store\<lparr>pages := [example_page ''A'' ''Home'' ''home'' 1,
                                         example_page ''C'' ''Help'' ''help'' 2]\<rparr>"
  have h1: "deletePage one_based_store ''B'' ''V'' = (Inr (), ?s')"
    by (simp add: example_defs page_table_defs deletePage_def cascadeDeleteEvents_def
      rearrangePagesOnDelete_def)
  have h2: "findOne one_based_store ''B'' = Some (example_page ''B'' ''Cart'' ''cart'' 2)"
    by (simp add: example_defs findOne_def)
  have h3: "distinct (map page_id (pages one_based_store))"
    by (simp add: example_defs)
  have h4: "one_based (find_pages one_based_store (page_appVersionId (example_page ''B'' ''Cart'' ''cart'' 2)))"
    by (simp add: example_defs find_pages_def one_based_def upt_rec)
  have v: "page_appVersionId (example_page ''B'' ''Cart'' ''cart'' 2) = ''V''"
    by (simp add: example_page_def)
  from deletePage_one_based[OF h1 h2 h3 h4] h1 h2 h3 h4 show ?thesis
    unfolding v by (simp add: example_defs find_pages_def)
qed


text \<open>
  C3 (as stated). \<open>deletePage\<close> called with the id a version records as its home page
  fails with ``Cannot delete home page'' and leaves the store unchanged. The service looks
  the page up first: when the recorded home page has no row, the failure is
  ``Page not found''.
\<close>

theorem deletePage_dangling_home_counterexample:
  "map_option editingVersion (findAppFromVersion zero_based_store ''W'') =
     Some (Some \<lparr>homePageId = Some ''Z''\<rparr>) \<and>
   deletePage zero_based_store ''Z'' ''W'' = (Inl (Error ''Page not found''), zero_based_store) \<and>
   fst (deletePage zero_based_store ''Z'' ''W'') \<noteq> Inl (Error ''Cannot delete home page'')"
  by (simp add: example_defs page_table_defs deletePage_def)

text \<open>
  C3 (amended). \<open>deletePage\<close> called with the id a version records as its home page fails
  and leaves the store unchanged; the failure is ``Cannot delete home page'' when that page
  has a row, and ``Page not found'' when it has none.
\<close>

theorem deletePage_home_page_fails:
  assumes "findAppFromVersion s v = Some a"
    and "editingVersion a = Some ev"
    and "homePageId ev = Some pid"
  shows "deletePage s pid v =
           (Inl (if findOne s pid = None then Error ''Page not found''
                 else Error ''Cannot delete home page''), s)"
  using assms by (simp add: deletePage_def split: option.splits)

theorem deletePage_home_page_fails_witness:
  "findAppFromVersion zero_based_store ''V'' = Some \<lparr>editingVersion = Some \<lparr>homePageId = Some ''A''\<rparr>\<rparr> \<and>
   editingVersion \<lparr>editingVersion = Some \<lparr>homePageId = Some ''A''\<rparr>\<rparr> = Some \<lparr>homePageId = Some ''A''\<rparr> \<and>
   homePageId \<lparr>homePageId = Some ''A''\<rparr> = Some ''A'' \<and>
   deletePage zero_based_store ''A'' ''V'' = (Inl (Error ''Cannot delete home page''), zero_based_store)"
proof -
  have h1: "findAppFromVersion zero_based_store ''V'' =
              Some \<lparr>editingVersion = Some \<lparr>homePageId = Some ''A''\<rparr>\<rparr>"
    by (simp add: example_defs)
  have h2: "editingVersion \<lparr>editingVersion = Some \<lparr>homePageId = Some ''A''\<rparr>\<rparr> =
              Some \<lparr>homePageId = Some ''A''\<rparr>"
    by simp
  have h3: "homePageId \<lparr>homePageId = Some ''A''\<rparr> = Some ''A''" by simp
  have f: "findOne zero_based_store ''A'' \<noteq> None"
    by (simp add: example_defs findOne_def)
  from deletePage_home_page_fails[OF h1 h2 h3] f h1 show ?thesis by simp
qed

section \<open>Updating a page\<close>

text \<open>
  C4 (as stated). \<open>updatePage\<close> fails with ``Page not found'' whenever the target page
  does not exist, however many fields the change-set touches, and modifies no page row.
  With two keys in the change-set the service takes the reorder path before it looks the
  target up: the call succeeds and the pages named by the keys are renumbered.
\<close>

theorem updatePage_missing_target_counterexample:
  "findOne one_based_store (pageId reorder_payload) = None \<and>
   fst (updatePage one_based_store reorder_payload ''V'') = Inr () \<and>
   map page_index (pages (snd (updatePage one_based_store reorder_payload ''V''))) = [3, 2, 1] \<and>
   map page_index (pages one_based_store) = [1, 2, 3]"
  by (simp add: example_defs page_table_defs reorder_payload_def updatePage_def
      updatePagesOrder_def object_keys_def no_columns_def)

text \<open>
  C4 (amended). When the target page does not exist and the change-set touches at most one
  field, \<open>updatePage\<close> fails with ``Page not found'' and leaves the store unchanged.
\<close>

theorem updatePage_missing_target:
  assumes "findOne s (pageId pageUpdates) = None"
    and "length (object_keys (diff pageUpdates)) \<le> 1"
  shows "updatePage s pageUpdates v = (Inl (Error ''Page not found''), s)"
  using assms by (simp add: updatePage_def)

theorem updatePage_missing_target_witness:
  "findOne one_based_store (pageId rename_payload) = None \<and>
   length (object_keys (diff rename_payload)) \<le> 1 \<and>
   updatePage one_based_store rename_payload ''V'' = (Inl (Error ''Page not found''), one_based_store)"
proof -
  have h1: "findOne one_based_store (pageId rename_payload) = None"
    by (simp add: example_defs findOne_def rename_payload_def)
  have h2: "length (object_keys (diff rename_payload)) \<le> 1"
    by (simp add: rename_payload_def object_keys_def)
  from updatePage_missing_target[OF h1 h2] h1 h2 show ?thesis by simp
qed

text \<open>
  C5. On a change-set that touches more than one field, \<open>updatePage\<close> returns the result
  and the store that \<open>updatePagesOrder\<close> returns for that change-set and version.
\<close>

theorem updatePage_multi_field:
  assumes "length (object_keys (diff pageUpdates)) > 1"
  shows "updatePage s pageUpdates v = updatePagesOrder s (diff pageUpdates) v"
  using assms by (simp add: updatePage_def)

theorem updatePage_multi_field_witness:
  "length (object_keys (diff reorder_payload)) > 1 \<and>
   updatePage one_based_store reorder_payload ''V'' =
     updatePagesOrder one_based_store (diff reorder_payload) ''V'' \<and>
   map page_index (pages (snd (updatePagesOrder one_based_store (diff reorder_payload) ''V''))) = [3, 2, 1]"
proof -
  have h: "length (object_keys (diff reorder_payload)) > 1"
    by (simp add: reorder_payload_def object_keys_def)
  have r: "map page_index (pages (snd (updatePagesOrder one_based_store (diff reorder_payload) ''V''))) = [3, 2, 1]"
    by (simp add: example_defs page_table_defs reorder_payload_def updatePagesOrder_def no_columns_def)
  from updatePage_multi_field[OF h] h r show ?thesis by simp
qed

section \<open>Substrings and decimal numerals\<close>

lemma startsWith_iff: "startsWith s t \<longleftrightarrow> (\<exists>w. s = t @ w)"
  by (induction s t rule: startsWith.induct) auto

lemma string_includes_iff: "string_includes s t \<longleftrightarrow> (\<exists>u w. s = u @ t @ w)"
proof (induction s)
  case Nil
  then show ?case by auto
next
  case (Cons a s)
  show ?case
  proof
    assume "string_includes (a # s) t"
    then consider "startsWith (a # s) t" | "string_includes s t" by auto
    then show "\<exists>u w. a # s = u @ t @ w"
    proof cases
      case 1
      then obtain w where "a # s = t @ w" by (auto simp: startsWith_iff)
      then have "a # s = [] @ t @ w" by simp
      then show ?thesis by blast
    next
      case 2
      then obtain u w where "s = u @ t @ w" using Cons.IH by blast
      then have "a # s = (a # u) @ t @ w" by simp
      then show ?thesis by blast
    qed
  next
    assume "\<exists>u w. a # s = u @ t @ w"
    then obtain u w where e: "a # s = u @ t @ w" by blast
    show "string_includes (a # s) t"
    proof (cases u)
      case Nil
      with e have "startsWith (a # s) t" by (auto simp: startsWith_iff)
      then show ?thesis by simp
    next
      case (Cons b u')
      with e have "s = u' @ t @ w" by simp
      then have "string_includes s t" using Cons.IH by blast
      then show ?thesis by simp
    qed
  qed
qed

lemma digit_inj: "a < 10 \<Longrightarrow> b < 10 \<Longrightarrow> digit a = digit b \<Longrightarrow> a = b"
proof -
  assume a: "a < 10" and b: "b < 10" and e: "digit a = digit b"
  have A: "a \<in> {0,1,2,3,4,5,6,7,8,9}" using a by auto
  have B: "b \<in> {0,1,2,3,4,5,6,7,8,9}" using b by auto
  from A B e show ?thesis by (auto simp: digit_def)
qed

declare decimal.simps [simp del]

lemma decimal_nonempty: "decimal n \<noteq> []"
  by (subst decimal.simps) simp

lemma decimal_inj: "decimal n = decimal m \<Longrightarrow> n = m"
proof (induction n arbitrary: m rule: decimal.induct)
  case (1 n)
  show ?case
  proof (cases "n < 10")
    case True
    show ?thesis
    proof (cases "m < 10")
      case mt: True
      from 1 True mt have "digit n = digit m" by (simp add: decimal.simps)
      then show ?thesis using True mt digit_inj by blast
    next
      case False
      with 1 True have "[digit n] = decimal (m div 10) @ [digit (m mod 10)]"
        by (simp add: decimal.simps[of n] decimal.simps[of m])
      then show ?thesis using decimal_nonempty[of "m div 10"] by auto
    qed
  next
    case False
    show ?thesis
    proof (cases "m < 10")
      case True
      with 1 False have "decimal (n div 10) @ [digit (n mod 10)] = [digit m]"
        by (simp add: decimal.simps[of n] decimal.simps[of m])
      then show ?thesis using decimal_nonempty[of "n div 10"] by auto
    next
      case mf: False
      with 1 False have "decimal (n div 10) @ [digit (n mod 10)] = decimal (m div 10) @ [digit (m mod 10)]"
        by (simp add: decimal.simps[of n] decimal.simps[of m])
      then have a: "decimal (n div 10) = decimal (m div 10)" and b: "digit (n mod 10) = digit (m mod 10)"
        by simp_all
      from a have "n div 10 = m div 10" using 1(1)[OF False] by blast
      moreover from b have "n mod 10 = m mod 10" using digit_inj by simp
      ultimately show ?thesis by (metis div_mult_mod_eq)
    qed
  qed
qed

lemma example_generatedId_inj: "inj example_generatedId"
proof (rule injI)
  fix n m
  assume "example_generatedId n = example_generatedId m"
  then have "decimal n = decimal m" by (simp add: example_generatedId_def)
  then show "n = m" by (rule decimal_inj)
qed

section \<open>Cloning: what each write leaves alone\<close>

lemma save_event_fields [simp]:
  "pages (save_event e s) = pages s"
  "components (save_event e s) = components s"
  "layouts (save_event e s) = layouts s"
  "findAppFromVersion (save_event e s) = findAppFromVersion s"
  "generatedId (save_event e s) = generatedId s"
  "generatedCount (save_event e s) = Suc (generatedCount s)"
  "eventHandlers (save_event e s) =
     eventHandlers s @ [e\<lparr>event_id := generatedId s (generatedCount s)\<rparr>]"
  by (simp_all add: save_event_def)

lemma save_layout_fields [simp]:
  "pages (save_layout l s) = pages s"
  "components (save_layout l s) = components s"
  "eventHandlers (save_layout l s) = eventHandlers s"
  "findAppFromVersion (save_layout l s) = findAppFromVersion s"
  "generatedId (save_layout l s) = generatedId s"
  "generatedCount (save_layout l s) = Suc (generatedCount s)"
  "layouts (save_layout l s) = layouts s @ [l\<lparr>layout_id := generatedId s (generatedCount s)\<rparr>]"
  by (simp_all add: save_layout_def)

lemma save_component_fields [simp]:
  "fst (save_component s c) = c\<lparr>component_id := generatedId s (generatedCount s)\<rparr>"
  "pages (snd (save_component s c)) = pages s"
  "layouts (snd (save_component s c)) = layouts s"
  "eventHandlers (snd (save_component s c)) = eventHandlers s"
  "findAppFromVersion (snd (save_component s c)) = findAppFromVersion s"
  "generatedId (snd (save_component s c)) = generatedId s"
  "generatedCount (snd (save_component s c)) = Suc (generatedCount s)"
  "components (snd (save_component s c)) =
     components s @ [c\<lparr>component_id := generatedId s (generatedCount s)\<rparr>]"
  by (simp_all add: save_component_def Let_def)

lemma save_page_fields [simp]:
  "fst (save_page s p) = p\<lparr>page_id := generatedId s (generatedCount s)\<rparr>"
  "components (snd (save_page s p)) = components s"
  "layouts (snd (save_page s p)) = layouts s"
  "eventHandlers (snd (save_page s p)) = eventHandlers s"
  "findAppFromVersion (snd (save_page s p)) = findAppFromVersion s"
  "generatedId (snd (save_page s p)) = generatedId s"
  "generatedCount (snd (save_page s p)) = Suc (generatedCount s)"
  "pages (snd (save_page s p)) = pages s @ [p\<lparr>page_id := generatedId s (generatedCount s)\<rparr>]"
  by (simp_all add: save_page_def Let_def)

lemma update_component_parent_fields [simp]:
  "pages (update_component_parent cid q s) = pages s"
  "layouts (update_component_parent cid q s) = layouts s"
  "eventHandlers (update_component_parent cid q s) = eventHandlers s"
  "findAppFromVersion (update_component_parent cid q s) = findAppFromVersion s"
  "generatedId (update_component_parent cid q s) = generatedId s"
  "generatedCount (update_component_parent cid q s) = generatedCount s"
  by (simp_all add: update_component_parent_def)

lemma fold_save_event_fields [simp]:
  "pages (fold save_event es s) = pages s"
  "components (fold save_event es s) = components s"
  "layouts (fold save_event es s) = layouts s"
  "findAppFromVersion (fold save_event es s) = findAppFromVersion s"
  "generatedId (fold save_event es s) = generatedId s"
  "generatedCount (fold save_event es s) = generatedCount s + length es"
  by (induction es arbitrary: s; simp)+

lemma fold_save_layout_fields [simp]:
  "pages (fold save_layout ls s) = pages s"
  "components (fold save_layout ls s) = components s"
  "eventHandlers (fold save_layout ls s) = eventHandlers s"
  "findAppFromVersion (fold save_layout ls s) = findAppFromVersion s"
  "generatedId (fold save_layout ls s) = generatedId s"
  "generatedCount (fold save_layout ls s) = generatedCount s + length ls"
  by (induction ls arbitrary: s; simp)+



lemma fold_save_event_prefix:
  "prefix xs (eventHandlers s) \<Longrightarrow> prefix xs (eventHandlers (fold save_event es s))"
proof (induction es arbitrary: s)
  case Nil
  then show ?case by simp
next
  case (Cons e es)
  from Cons.prems have "prefix xs (eventHandlers (save_event e s))" by simp
  then show ?case using Cons.IH[of "save_event e s"] by simp
qed

lemma fold_save_layout_prefix:
  "prefix xs (layouts s) \<Longrightarrow> prefix xs (layouts (fold save_layout ls s))"
proof (induction ls arbitrary: s)
  case Nil
  then show ?case by simp
next
  case (Cons l ls)
  from Cons.prems have "prefix xs (layouts (save_layout l s))" by simp
  then show ?case using Cons.IH[of "save_layout l s"] by simp
qed

text \<open>The first loop.\<close>

lemma clone_page_events_fields [simp]:
  "pages (clone_page_events np m es s) = pages s"
  "components (clone_page_events np m es s) = components s"
  "layouts (clone_page_events np m es s) = layouts s"
  "findAppFromVersion (clone_page_events np m es s) = findAppFromVersion s"
  "generatedId (clone_page_events np m es s) = generatedId s"
  "generatedCount (clone_page_events np m es s) = generatedCount s + length es"
  unfolding clone_page_events_def by (induction es arbitrary: s; simp)+


lemma clone_page_events_prefix:
  "prefix xs (eventHandlers s) \<Longrightarrow> prefix xs (eventHandlers (clone_page_events np m es s))"
  unfolding clone_page_events_def
proof (induction es arbitrary: s)
  case Nil
  then show ?case by simp
next
  case (Cons e es)
  let ?s1 = "save_event ((remap_event m e)\<lparr>event_sourceId := np\<rparr>) s"
  from Cons.prems have "prefix xs (eventHandlers ?s1)" by simp
  then show ?case using Cons.IH[of ?s1] by simp
qed

text \<open>The first part of every callback of the second loop.\<close>

lemma save_clone_new [simp]:
  "fst (save_clone np c m s) =
     c\<lparr>component_id := generatedId s (generatedCount s), component_pageId := np\<rparr>"
  by (simp add: save_clone_def Let_def split_def)

lemma save_clone_map:
  "fst (snd (save_clone np c m s)) = m(component_id c \<mapsto> generatedId s (generatedCount s))"
  by (simp add: save_clone_def Let_def split_def)

lemma save_clone_fields [simp]:
  "pages (snd (snd (save_clone np c m s))) = pages s"
  "layouts (snd (snd (save_clone np c m s))) = layouts s"
  "eventHandlers (snd (snd (save_clone np c m s))) = eventHandlers s"
  "findAppFromVersion (snd (snd (save_clone np c m s))) = findAppFromVersion s"
  "generatedId (snd (snd (save_clone np c m s))) = generatedId s"
  "generatedCount (snd (snd (save_clone np c m s))) = Suc (generatedCount s)"
  "components (snd (snd (save_clone np c m s))) =
     components s @ [c\<lparr>component_id := generatedId s (generatedCount s), component_pageId := np\<rparr>]"
  by (simp_all add: save_clone_def Let_def split_def)

lemma save_clones_Cons:
  "save_clones np (c # cs) m s =
     (fst (save_clone np c m s)
        # fst (save_clones np cs (fst (snd (save_clone np c m s)))
                 (snd (snd (save_clone np c m s)))),
      snd (save_clones np cs (fst (snd (save_clone np c m s)))
             (snd (snd (save_clone np c m s)))))"
  by (simp add: split_def Let_def)

lemma save_clones_fields [simp]:
  "pages (snd (snd (save_clones np cs m s))) = pages s"
  "layouts (snd (snd (save_clones np cs m s))) = layouts s"
  "eventHandlers (snd (snd (save_clones np cs m s))) = eventHandlers s"
  "findAppFromVersion (snd (snd (save_clones np cs m s))) = findAppFromVersion s"
  "generatedId (snd (snd (save_clones np cs m s))) = generatedId s"
  "generatedCount (snd (snd (save_clones np cs m s))) = generatedCount s + length cs"
  "length (fst (save_clones np cs m s)) = length cs"
  by (induction cs arbitrary: m s; simp add: save_clones_Cons del: save_clones.simps(2))+

lemma save_clones_components:
  "components (snd (snd (save_clones np cs m s))) = components s @ fst (save_clones np cs m s)"
  by (induction cs arbitrary: m s)
     (simp_all add: save_clones_Cons del: save_clones.simps(2))

lemma save_clones_copies:
  "map component_pageId (fst (save_clones np cs m s)) = replicate (length cs) np"
  "map component_parent (fst (save_clones np cs m s)) = map component_parent cs"
  "map component_properties (fst (save_clones np cs m s)) = map component_properties cs"
  by (induction cs arbitrary: m s; simp add: save_clones_Cons del: save_clones.simps(2))+

lemma save_clones_ids:
  "map component_id (fst (save_clones np cs m s)) =
     map (generatedId s) [generatedCount s ..< generatedCount s + length cs]"
proof (induction cs arbitrary: m s)
  case Nil
  then show ?case by simp
next
  case (Cons c cs)
  let ?m1 = "fst (snd (save_clone np c m s))"
  let ?s1 = "snd (snd (save_clone np c m s))"
  have "[generatedCount s ..< generatedCount s + length (c # cs)] =
          generatedCount s # [Suc (generatedCount s) ..< generatedCount s + length (c # cs)]"
    by (rule upt_conv_Cons) simp
  then have u: "[generatedCount s ..< generatedCount s + length (c # cs)] =
             generatedCount s # [Suc (generatedCount s) ..< Suc (generatedCount s) + length cs]"
    by simp
  have "map component_id (fst (save_clones np cs ?m1 ?s1)) =
          map (generatedId s) [Suc (generatedCount s) ..< Suc (generatedCount s) + length cs]"
    using Cons.IH[of ?m1 ?s1] by simp
  then show ?case
    unfolding u by (simp add: save_clones_Cons del: save_clones.simps(2))
qed

lemma save_clones_map_other:
  "k \<notin> component_id ` set cs \<Longrightarrow> fst (snd (save_clones np cs m s)) k = m k"
proof (induction cs arbitrary: m s)
  case Nil
  then show ?case by simp
next
  case (Cons c cs)
  let ?m1 = "fst (snd (save_clone np c m s))"
  let ?s1 = "snd (snd (save_clone np c m s))"
  from Cons.prems have k: "k \<noteq> component_id c" "k \<notin> component_id ` set cs" by auto
  have "fst (snd (save_clones np cs ?m1 ?s1)) k = ?m1 k" using k(2) by (rule Cons.IH)
  also have "\<dots> = m k" using k(1) by (simp add: save_clone_map)
  finally show ?case by (simp add: save_clones_Cons del: save_clones.simps(2))
qed

lemma save_clones_map:
  "distinct (map component_id cs) \<Longrightarrow> i < length cs \<Longrightarrow>
   fst (snd (save_clones np cs m s)) (component_id (cs ! i)) =
     Some (component_id (fst (save_clones np cs m s) ! i))"
proof (induction cs arbitrary: m s i)
  case Nil
  then show ?case by simp
next
  case (Cons c cs)
  let ?m1 = "fst (snd (save_clone np c m s))"
  let ?s1 = "snd (snd (save_clone np c m s))"
  show ?case
  proof (cases i)
    case 0
    have "component_id c \<notin> component_id ` set cs" using Cons.prems(1) by simp
    then have "fst (snd (save_clones np cs ?m1 ?s1)) (component_id c) = ?m1 (component_id c)"
      by (rule save_clones_map_other)
    then show ?thesis using 0
      by (simp add: save_clones_Cons save_clone_map del: save_clones.simps(2))
  next
    case (Suc j)
    have d: "distinct (map component_id cs)" using Cons.prems(1) by simp
    have j: "j < length cs" using Cons.prems(2) Suc by simp
    from Cons.IH[OF d j, of ?m1 ?s1] show ?thesis using Suc
      by (simp add: save_clones_Cons del: save_clones.simps(2))
  qed
qed

text \<open>The rest of a callback.\<close>

lemma clone_rows_fields [simp]:
  "pages (clone_rows m cn s) = pages s"
  "components (clone_rows m cn s) = components s"
  "findAppFromVersion (clone_rows m cn s) = findAppFromVersion s"
  "generatedId (clone_rows m cn s) = generatedId s"
  by (simp_all add: clone_rows_def Let_def)

lemma clone_rows_count: "generatedCount s \<le> generatedCount (clone_rows m cn s)"
  by (simp add: clone_rows_def Let_def)



lemma clone_rows_prefix:
  "prefix xs (layouts s) \<Longrightarrow> prefix xs (layouts (clone_rows m cn s))"
  "prefix ys (eventHandlers s) \<Longrightarrow> prefix ys (eventHandlers (clone_rows m cn s))"
  by (simp_all add: clone_rows_def Let_def fold_save_layout_prefix fold_save_event_prefix)

lemma fold_clone_rows_fields [simp]:
  "pages (fold (clone_rows m) ps s) = pages s"
  "components (fold (clone_rows m) ps s) = components s"
  "findAppFromVersion (fold (clone_rows m) ps s) = findAppFromVersion s"
  "generatedId (fold (clone_rows m) ps s) = generatedId s"
  by (induction ps arbitrary: s; simp)+

lemma fold_clone_rows_count: "generatedCount s \<le> generatedCount (fold (clone_rows m) ps s)"
proof (induction ps arbitrary: s)
  case Nil
  then show ?case by simp
next
  case (Cons cn ps)
  have "generatedCount s \<le> generatedCount (clone_rows m cn s)" by (rule clone_rows_count)
  also have "\<dots> \<le> generatedCount (fold (clone_rows m) ps (clone_rows m cn s))"
    by (rule Cons.IH)
  finally show ?case by simp
qed

lemma fold_clone_rows_prefix:
  "prefix xs (layouts s) \<Longrightarrow> prefix xs (layouts (fold (clone_rows m) ps s))"
  "prefix ys (eventHandlers s) \<Longrightarrow> prefix ys (eventHandlers (fold (clone_rows m) ps s))"
  by (induction ps arbitrary: s; simp add: clone_rows_prefix)+

text \<open>The second loop.\<close>

lemma clone_components_parts:
  "fst (clone_components np cs m s) = fst (save_clones np cs m s)"
  "fst (snd (clone_components np cs m s)) = fst (snd (save_clones np cs m s))"
  "snd (snd (clone_components np cs m s)) =
     fold (clone_rows (fst (snd (save_clones np cs m s))))
       (zip cs (fst (save_clones np cs m s))) (snd (snd (save_clones np cs m s)))"
  by (simp_all add: clone_components_def split_def Let_def)

lemma clone_components_fields [simp]:
  "pages (snd (snd (clone_components np cs m s))) = pages s"
  "findAppFromVersion (snd (snd (clone_components np cs m s))) = findAppFromVersion s"
  "generatedId (snd (snd (clone_components np cs m s))) = generatedId s"
  "length (fst (clone_components np cs m s)) = length cs"
  by (simp_all add: clone_components_parts)

lemma clone_components_count_mono:
  "generatedCount s + length cs \<le> generatedCount (snd (snd (clone_components np cs m s)))"
proof -
  have "generatedCount (snd (snd (save_clones np cs m s)))
          \<le> generatedCount (snd (snd (clone_components np cs m s)))"
    unfolding clone_components_parts by (rule fold_clone_rows_count)
  then show ?thesis by simp
qed

lemma clone_components_components:
  "components (snd (snd (clone_components np cs m s))) =
     components s @ fst (clone_components np cs m s)"
  by (simp add: clone_components_parts save_clones_components)

lemma clone_components_copies:
  "map component_pageId (fst (clone_components np cs m s)) = replicate (length cs) np"
  "map component_parent (fst (clone_components np cs m s)) = map component_parent cs"
  "map component_properties (fst (clone_components np cs m s)) = map component_properties cs"
  by (simp_all add: clone_components_parts save_clones_copies)

lemma clone_components_prefix:
  "prefix xs (layouts s) \<Longrightarrow> prefix xs (layouts (snd (snd (clone_components np cs m s))))"
  "prefix ys (eventHandlers s) \<Longrightarrow>
     prefix ys (eventHandlers (snd (snd (clone_components np cs m s))))"
  by (simp_all add: clone_components_parts fold_clone_rows_prefix)

lemma clone_components_ids:
  "set (map component_id (fst (clone_components np cs m s)))
     \<subseteq> generatedId s ` {generatedCount s ..< generatedCount (snd (snd (clone_components np cs m s)))}"
proof -
  have "set (map component_id (fst (clone_components np cs m s)))
          = generatedId s ` {generatedCount s ..< generatedCount s + length cs}"
    by (simp add: clone_components_parts(1) save_clones_ids)
  also have "\<dots> \<subseteq> generatedId s `
      {generatedCount s ..< generatedCount (snd (snd (clone_components np cs m s)))}"
    using clone_components_count_mono[of s cs np m] by (intro image_mono) auto
  finally show ?thesis .
qed

text \<open>The last loop.\<close>

lemma remap_parents_fields [simp]:
  "pages (remap_parents m cs s) = pages s"
  "layouts (remap_parents m cs s) = layouts s"
  "eventHandlers (remap_parents m cs s) = eventHandlers s"
  "findAppFromVersion (remap_parents m cs s) = findAppFromVersion s"
  "generatedId (remap_parents m cs s) = generatedId s"
  "generatedCount (remap_parents m cs s) = generatedCount s"
  by (induction cs arbitrary: s; simp add: Let_def)+

lemma update_component_parent_ids [simp]:
  "map component_id (components (update_component_parent cid q s)) = map component_id (components s)"
  "map component_pageId (components (update_component_parent cid q s)) =
     map component_pageId (components s)"
  "map component_properties (components (update_component_parent cid q s)) =
     map component_properties (components s)"
  by (simp_all add: update_component_parent_def comp_def if_distrib cong: if_cong)

lemma remap_parents_ids [simp]:
  "map component_id (components (remap_parents m cs s)) = map component_id (components s)"
  "map component_pageId (components (remap_parents m cs s)) = map component_pageId (components s)"
  "map component_properties (components (remap_parents m cs s)) =
     map component_properties (components s)"
  by (induction cs arbitrary: s; simp add: Let_def)+

lemma update_component_parent_take:
  "cid \<notin> component_id ` set (take k (components s)) \<Longrightarrow>
   take k (components (update_component_parent cid q s)) = take k (components s)"
proof -
  assume a: "cid \<notin> component_id ` set (take k (components s))"
  have "map (\<lambda>c. if component_id c = cid then c\<lparr>component_parent := Some q\<rparr> else c)
          (take k (components s)) = take k (components s)"
    using a by (intro map_idI) auto
  then show ?thesis by (simp add: update_component_parent_def take_map)
qed

lemma remap_parents_take:
  "component_id ` set cs \<inter> component_id ` set (take k (components s)) = {} \<Longrightarrow>
   take k (components (remap_parents m cs s)) = take k (components s)"
proof (induction cs arbitrary: s)
  case Nil
  then show ?case by simp
next
  case (Cons c cs)
  let ?cid = "case component_parent c of None \<Rightarrow> None | Some p \<Rightarrow> m p"
  let ?s1 = "if truthy ?cid then update_component_parent (component_id c) (the ?cid) s else s"
  from Cons.prems have c: "component_id c \<notin> component_id ` set (take k (components s))"
    and cs: "component_id ` set cs \<inter> component_id ` set (take k (components s)) = {}"
    by auto
  have t1: "take k (components ?s1) = take k (components s)"
    using c by (simp add: update_component_parent_take)
  then have "component_id ` set cs \<inter> component_id ` set (take k (components ?s1)) = {}"
    using cs by simp
  then have "take k (components (remap_parents m cs ?s1)) = take k (components ?s1)"
    by (rule Cons.IH)
  with t1 show ?case by (simp add: Let_def)
qed

lemma remapped_id [simp]: "component_id (remapped m c) = component_id c"
  by (simp add: remapped_def Let_def)

lemma remap_parents_closed:
  "distinct (map component_id cs) \<Longrightarrow>
   component_id ` set cs \<inter> component_id ` set pre = {} \<Longrightarrow>
   components s = pre @ cs \<Longrightarrow>
   components (remap_parents m cs s) = pre @ map (remapped m) cs"
proof (induction cs arbitrary: s pre)
  case Nil
  then show ?case by simp
next
  case (Cons c cs)
  let ?cid = "case component_parent c of None \<Rightarrow> None | Some p \<Rightarrow> m p"
  let ?s1 = "if truthy ?cid then update_component_parent (component_id c) (the ?cid) s else s"
  have "component_id c \<notin> component_id ` set pre" using Cons.prems(2) by auto
  then have npre: "\<forall>x\<in>set pre. component_id x \<noteq> component_id c"
    by (metis imageI)
  have "component_id c \<notin> component_id ` set cs" using Cons.prems(1) by simp
  then have ncs: "\<forall>x\<in>set cs. component_id x \<noteq> component_id c"
    by (metis imageI)
  have s1: "components ?s1 = (pre @ [remapped m c]) @ cs"
  proof (cases "truthy ?cid")
    case True
    then obtain q where q: "?cid = Some q" by (auto simp: truthy_def split: option.splits)
    have "map (\<lambda>x. if component_id x = component_id c then x\<lparr>component_parent := Some q\<rparr> else x) pre = pre"
      using npre by (intro map_idI) auto
    moreover have "map (\<lambda>x. if component_id x = component_id c then x\<lparr>component_parent := Some q\<rparr> else x) cs = cs"
      using ncs by (intro map_idI) auto
    ultimately show ?thesis using True q Cons.prems(3)
      by (simp add: update_component_parent_def remapped_def Let_def)
  next
    case False
    then show ?thesis using Cons.prems(3) by (simp add: remapped_def Let_def)
  qed
  have d: "distinct (map component_id cs)" using Cons.prems(1) by simp
  have disj: "component_id ` set cs \<inter> component_id ` set (pre @ [remapped m c]) = {}"
    using Cons.prems(1,2) by auto
  from Cons.IH[OF d disj s1] show ?case by (simp add: Let_def)
qed

text \<open>The whole of clonePageEventsAndComponents.\<close>

lemma clonePageEventsAndComponents_fields [simp]:
  "pages (clonePageEventsAndComponents s pid np) = pages s"
  "findAppFromVersion (clonePageEventsAndComponents s pid np) = findAppFromVersion s"
  "generatedId (clonePageEventsAndComponents s pid np) = generatedId s"
  by (simp_all add: clonePageEventsAndComponents_def Let_def split_def)

lemma clonePageEventsAndComponents_prefix:
  "prefix (layouts s) (layouts (clonePageEventsAndComponents s pid np))"
  "prefix (eventHandlers s) (eventHandlers (clonePageEventsAndComponents s pid np))"
  by (simp_all add: clonePageEventsAndComponents_def Let_def split_def
      clone_components_prefix clone_page_events_prefix)

section \<open>Cloning a page\<close>

lemma clonePage_found:
  "findOne s pid = Some pageToClone \<Longrightarrow>
   clonePage s pid v =
     (let clonedpage =
            \<lparr>page_id = generatedId s (generatedCount s),
             page_name = fst (copy_name pageToClone (find_pages s v)),
             page_handle = snd (copy_name pageToClone (find_pages s v)),
             page_index = page_index pageToClone + 1,
             page_appVersionId = v\<rparr>
      in (Inr clonedpage,
          clonePageEventsAndComponents
            (s\<lparr>pages := pages s @ [clonedpage], generatedCount := Suc (generatedCount s)\<rparr>)
            pid (page_id clonedpage)))"
  by (simp add: clonePage_def Let_def split_def save_page_def)

lemma pageNameORHandleExists_substring:
  "pageNameORHandleExists pageToClone (find_pages s v) =
     filter (\<lambda>page. page_appVersionId page = v \<and>
               ((\<exists>u w. page_name page = u @ (page_name pageToClone @ '' (copy)'') @ w) \<or>
                (\<exists>u w. page_handle page = u @ (page_handle pageToClone @ ''-copy'') @ w)))
       (pages s)"
  by (simp add: pageNameORHandleExists_def find_pages_def string_includes_iff)

text \<open>
  C6. Let \<open>n\<close> be the number of pages of the version whose name has the source's name
  followed by `` (copy)'' somewhere inside it, or whose handle has the source's handle
  followed by ``-copy'' somewhere inside it. If there is such a page, the clone is named
  with `` (copy n)'' and its handle ends in ``-copy-n''; if there is none, the clone gets
  the plain `` (copy)'' and ``-copy''. The witness is the scenario of a page Home cloned
  next to an existing Home (copy).
\<close>

theorem clonePage_copy_name:
  assumes "findOne s pid = Some pageToClone"
    and "n = length (filter (\<lambda>page. page_appVersionId page = v \<and>
               ((\<exists>u w. page_name page = u @ (page_name pageToClone @ '' (copy)'') @ w) \<or>
                (\<exists>u w. page_handle page = u @ (page_handle pageToClone @ ''-copy'') @ w)))
             (pages s))"
  shows "\<exists>clonedpage.
           fst (clonePage s pid v) = Inr clonedpage \<and>
           clonedpage \<in> set (pages (snd (clonePage s pid v))) \<and>
           page_name clonedpage =
             (if n = 0 then page_name pageToClone @ '' (copy)''
              else page_name pageToClone @ '' (copy '' @ decimal n @ '')'') \<and>
           page_handle clonedpage =
             (if n = 0 then page_handle pageToClone @ ''-copy''
              else page_handle pageToClone @ ''-copy-'' @ decimal n)"
proof -
  have n: "n = length (pageNameORHandleExists pageToClone (find_pages s v))"
    using assms(2) by (simp only: pageNameORHandleExists_substring)
  show ?thesis
    using assms(1) by (simp add: clonePage_found Let_def copy_name_def n)
qed

theorem clonePage_copy_name_witness:
  "findOne home_copy_store ''A'' = Some (example_page ''A'' ''Home'' ''home'' 1) \<and>
   (1::nat) = length (filter (\<lambda>page. page_appVersionId page = ''V'' \<and>
               ((\<exists>u w. page_name page = u @ (''Home'' @ '' (copy)'') @ w) \<or>
                (\<exists>u w. page_handle page = u @ (''home'' @ ''-copy'') @ w)))
             (pages home_copy_store)) \<and>
   (\<exists>clonedpage.
      fst (clonePage home_copy_store ''A'' ''V'') = Inr clonedpage \<and>
      clonedpage \<in> set (pages (snd (clonePage home_copy_store ''A'' ''V''))) \<and>
      page_name clonedpage = ''Home (copy 1)'' \<and>
      page_handle clonedpage = ''home-copy-1'')"
proof -
  let ?home = "example_page ''A'' ''Home'' ''home'' 1"
  have h1: "findOne home_copy_store ''A'' = Some ?home"
    by (simp add: home_copy_store_def pages_only_def example_page_def findOne_def)
  have nm: "page_name ?home = ''Home''" "page_handle ?home = ''home''"
    by (simp_all add: example_page_def)
  have "(1::nat) = length (pageNameORHandleExists ?home (find_pages home_copy_store ''V''))"
    by (simp add: home_copy_store_def pages_only_def example_page_def find_pages_def
        pageNameORHandleExists_def)
  then have h2: "(1::nat) = length (filter (\<lambda>page. page_appVersionId page = ''V'' \<and>
               ((\<exists>u w. page_name page = u @ (page_name ?home @ '' (copy)'') @ w) \<or>
                (\<exists>u w. page_handle page = u @ (page_handle ?home @ ''-copy'') @ w)))
             (pages home_copy_store))"
    by (simp only: pageNameORHandleExists_substring)
  have d: "decimal 1 = ''1''" by (simp add: decimal.simps digit_def)
  have c: "\<exists>clonedpage.
      fst (clonePage home_copy_store ''A'' ''V'') = Inr clonedpage \<and>
      clonedpage \<in> set (pages (snd (clonePage home_copy_store ''A'' ''V''))) \<and>
      page_name clonedpage = ''Home (copy 1)'' \<and>
      page_handle clonedpage = ''home-copy-1''"
    using clonePage_copy_name[OF h1 h2] unfolding d nm by simp
  show ?thesis by (rule conjI[OF h1 conjI[OF h2[unfolded nm] c]])
qed

text \<open>
  C9. The cloned page is inserted with the index of the source page plus one, and the page
  table after the clone is the page table before it followed by that one new row: no other
  page is renumbered.
\<close>

theorem clonePage_index:
  assumes "findOne s pid = Some pageToClone"
  shows "\<exists>clonedpage.
           fst (clonePage s pid v) = Inr clonedpage \<and>
           page_index clonedpage = page_index pageToClone + 1 \<and>
           pages (snd (clonePage s pid v)) = pages s @ [clonedpage]"
  using assms by (simp add: clonePage_found Let_def)

theorem clonePage_index_witness:
  "findOne home_copy_store ''A'' = Some (example_page ''A'' ''Home'' ''home'' 1) \<and>
   (\<exists>clonedpage.
      fst (clonePage home_copy_store ''A'' ''V'') = Inr clonedpage \<and>
      page_index clonedpage = 2 \<and>
      pages (snd (clonePage home_copy_store ''A'' ''V'')) = pages home_copy_store @ [clonedpage])"
proof -
  have h1: "findOne home_copy_store ''A'' = Some (example_page ''A'' ''Home'' ''home'' 1)"
    by (simp add: home_copy_store_def pages_only_def example_page_def findOne_def)
  have i: "page_index (example_page ''A'' ''Home'' ''home'' 1) + 1 = 2"
    by (simp add: example_page_def)
  show ?thesis by (rule conjI[OF h1 clonePage_index[OF h1, of "''V''", unfolded i]])
qed

lemma clonePageEventsAndComponents_keeps_components:
  assumes fresh: "\<forall>n\<ge>generatedCount s. generatedId s n \<notin> component_id ` set (components s)"
  shows "prefix (components s) (components (clonePageEventsAndComponents s pid np))"
proof -
  define s1 where "s1 = clone_page_events np Map.empty (findAllEventsWithSourceId s pid) s"
  define R where "R = clone_components np (pageComponents s pid) Map.empty s1"
  define k where "k = length (components s)"
  let ?news = "fst R" and ?m = "fst (snd R)" and ?s2 = "snd (snd R)"
  have res: "clonePageEventsAndComponents s pid np = remap_parents ?m ?news ?s2"
    by (simp add: clonePageEventsAndComponents_def Let_def split_def R_def s1_def)
  have c2: "components ?s2 = components s @ ?news"
    by (simp add: R_def clone_components_components s1_def)
  have "set (map component_id ?news) \<subseteq> generatedId s1 ` {generatedCount s1 ..< generatedCount ?s2}"
    unfolding R_def by (rule clone_components_ids)
  moreover have "generatedId s1 = generatedId s" "generatedCount s \<le> generatedCount s1"
    by (simp_all add: s1_def)
  ultimately have new: "component_id ` set ?news \<subseteq> generatedId s ` {generatedCount s ..}"
    by auto
  have old: "generatedId s ` {generatedCount s ..} \<inter> component_id ` set (components s) = {}"
    using fresh by auto
  have tk: "take k (components ?s2) = components s" by (simp add: c2 k_def)
  have "component_id ` set ?news \<inter> component_id ` set (take k (components ?s2)) = {}"
    using new old unfolding tk by blast
  then have "take k (components (remap_parents ?m ?news ?s2)) = take k (components ?s2)"
    by (rule remap_parents_take)
  then have "take k (components (clonePageEventsAndComponents s pid np)) = components s"
    by (simp add: res tk)
  then show ?thesis by (metis take_is_prefix)
qed

text \<open>
  C10. Provided the ids the store will generate are not ids of existing components, the
  four tables after \<open>clonePage\<close> begin with the rows they held before, unchanged and in
  the same order: the source page, its components, its layout rows and its event handlers
  are not written to, and everything the clone writes is a new row.
\<close>

theorem clonePage_keeps_existing_rows:
  assumes fresh: "\<forall>n\<ge>generatedCount s. generatedId s n \<notin> component_id ` set (components s)"
  shows "prefix (pages s) (pages (snd (clonePage s pid v))) \<and>
         prefix (components s) (components (snd (clonePage s pid v))) \<and>
         prefix (layouts s) (layouts (snd (clonePage s pid v))) \<and>
         prefix (eventHandlers s) (eventHandlers (snd (clonePage s pid v)))"
proof (cases "findOne s pid")
  case None
  then show ?thesis by (simp add: clonePage_def)
next
  case (Some pageToClone)
  define clonedpage where "clonedpage =
            \<lparr>page_id = generatedId s (generatedCount s),
             page_name = fst (copy_name pageToClone (find_pages s v)),
             page_handle = snd (copy_name pageToClone (find_pages s v)),
             page_index = page_index pageToClone + 1,
             page_appVersionId = v\<rparr>"
  define s1 where "s1 = s\<lparr>pages := pages s @ [clonedpage], generatedCount := Suc (generatedCount s)\<rparr>"
  have res: "snd (clonePage s pid v) = clonePageEventsAndComponents s1 pid (page_id clonedpage)"
    using Some by (simp add: clonePage_found Let_def s1_def clonedpage_def)
  have f1: "\<forall>n\<ge>generatedCount s1. generatedId s1 n \<notin> component_id ` set (components s1)"
    using fresh by (simp add: s1_def)
  have "prefix (components s1) (components (clonePageEventsAndComponents s1 pid (page_id clonedpage)))"
    using f1 by (rule clonePageEventsAndComponents_keeps_components)
  moreover have "prefix (layouts s1) (layouts (clonePageEventsAndComponents s1 pid (page_id clonedpage)))"
    "prefix (eventHandlers s1) (eventHandlers (clonePageEventsAndComponents s1 pid (page_id clonedpage)))"
    by (rule clonePageEventsAndComponents_prefix)+
  ultimately show ?thesis
    by (simp add: res) (simp add: s1_def)
qed

theorem clonePage_keeps_existing_rows_witness:
  "prefix (pages widgets_store) (pages (snd (clonePage widgets_store ''A'' ''V''))) \<and>
   prefix (components widgets_store) (components (snd (clonePage widgets_store ''A'' ''V''))) \<and>
   prefix (layouts widgets_store) (layouts (snd (clonePage widgets_store ''A'' ''V''))) \<and>
   prefix (eventHandlers widgets_store) (eventHandlers (snd (clonePage widgets_store ''A'' ''V'')))"
proof -
  have h: "\<forall>n\<ge>generatedCount widgets_store.
      generatedId widgets_store n \<notin> component_id ` set (components widgets_store)"
    by (simp add: widgets_store_def example_generatedId_def)
  show ?thesis by (rule clonePage_keeps_existing_rows[OF h])
qed

subsection \<open>The id map and the cloned components\<close>

lemma clone_components_distinct:
  "inj (generatedId s) \<Longrightarrow> distinct (map component_id (fst (clone_components np cs m s)))"
proof -
  assume "inj (generatedId s)"
  then have "inj_on (generatedId s) (set [generatedCount s ..< generatedCount s + length cs])"
    by (rule inj_on_subset) simp
  then show ?thesis
    by (simp add: clone_components_parts(1) save_clones_ids distinct_map)
qed

lemma clone_components_map_other:
  "k \<notin> component_id ` set cs \<Longrightarrow> fst (snd (clone_components np cs m s)) k = m k"
  by (simp add: clone_components_parts(2) save_clones_map_other)

lemma clone_components_map:
  "distinct (map component_id cs) \<Longrightarrow> i < length cs \<Longrightarrow>
   fst (snd (clone_components np cs m s)) (component_id (cs ! i)) =
     Some (component_id (fst (clone_components np cs m s) ! i))"
  by (simp add: clone_components_parts(1,2) save_clones_map)

lemma clonePageEventsAndComponents_components:
  assumes inj: "inj (generatedId s)"
    and fresh: "\<forall>n\<ge>generatedCount s. generatedId s n \<notin> component_id ` set (components s)"
  shows "components (clonePageEventsAndComponents s pid np) =
           components s @
           map (remapped (fst (snd (clone_components np (pageComponents s pid) Map.empty
                  (clone_page_events np Map.empty (findAllEventsWithSourceId s pid) s)))))
             (fst (clone_components np (pageComponents s pid) Map.empty
                  (clone_page_events np Map.empty (findAllEventsWithSourceId s pid) s)))"
proof -
  define s1 where "s1 = clone_page_events np Map.empty (findAllEventsWithSourceId s pid) s"
  define R where "R = clone_components np (pageComponents s pid) Map.empty s1"
  let ?news = "fst R" and ?m = "fst (snd R)" and ?s2 = "snd (snd R)"
  have res: "clonePageEventsAndComponents s pid np = remap_parents ?m ?news ?s2"
    by (simp add: clonePageEventsAndComponents_def Let_def split_def R_def s1_def)
  have c2: "components ?s2 = components s @ ?news"
    by (simp add: R_def clone_components_components s1_def)
  have "inj (generatedId s1)" using inj by (simp add: s1_def)
  then have d: "distinct (map component_id ?news)"
    unfolding R_def by (rule clone_components_distinct)
  have "set (map component_id ?news) \<subseteq> generatedId s1 ` {generatedCount s1 ..< generatedCount ?s2}"
    unfolding R_def by (rule clone_components_ids)
  moreover have "generatedId s1 = generatedId s" "generatedCount s \<le> generatedCount s1"
    by (simp_all add: s1_def)
  ultimately have new: "component_id ` set ?news \<subseteq> generatedId s ` {generatedCount s ..}"
    by auto
  have old: "generatedId s ` {generatedCount s ..} \<inter> component_id ` set (components s) = {}"
    using fresh by auto
  have disj: "component_id ` set ?news \<inter> component_id ` set (components s) = {}"
    using new old by blast
  have "components (remap_parents ?m ?news ?s2) = components s @ map (remapped ?m) ?news"
    using d disj c2 by (rule remap_parents_closed)
  then show ?thesis by (simp add: res R_def s1_def)
qed

lemma widgets_store_fresh: "generates_fresh_ids widgets_store"
proof -
  have "inj (generatedId widgets_store)"
    by (simp add: widgets_store_def example_generatedId_inj)
  moreover have "\<forall>n\<ge>generatedCount widgets_store.
      generatedId widgets_store n \<noteq> [] \<and> generatedId widgets_store n \<notin> ids_in_use widgets_store"
    by (simp add: widgets_store_def ids_in_use_def example_generatedId_def example_page_def)
  ultimately show ?thesis by (simp add: generates_fresh_ids_def)
qed

lemma widgets_store_home:
  "findOne widgets_store ''A'' = Some (example_page ''A'' ''Home'' ''home'' 1)"
  by (simp add: widgets_store_def findOne_def example_page_def)

lemma widgets_store_distinct: "distinct (map component_id (components widgets_store))"
  by (simp add: widgets_store_def)

text \<open>
  C8. Let the store generate fresh ids and component ids be unique. When the \<open>i\<close>-th
  component of the source page has the \<open>j\<close>-th component of that page as its parent, then
  after \<open>clonePage\<close> the \<open>i\<close>-th cloned component (a copy of the \<open>i\<close>-th original, one
  cloned component per original) has the \<open>j\<close>-th cloned component as its parent, and that
  parent id is not the id of any component that existed before.
\<close>

theorem clonePage_parents:
  assumes found: "findOne s pid = Some pageToClone"
    and fresh: "generates_fresh_ids s"
    and dist: "distinct (map component_id (components s))"
    and i: "i < length (pageComponents s pid)"
    and j: "j < length (pageComponents s pid)"
    and par: "component_parent (pageComponents s pid ! i) =
                Some (component_id (pageComponents s pid ! j))"
  shows "length (cloned_components s (snd (clonePage s pid v))) = length (pageComponents s pid) \<and>
         component_properties (cloned_components s (snd (clonePage s pid v)) ! i) =
           component_properties (pageComponents s pid ! i) \<and>
         component_parent (cloned_components s (snd (clonePage s pid v)) ! i) =
           Some (component_id (cloned_components s (snd (clonePage s pid v)) ! j)) \<and>
         component_id (cloned_components s (snd (clonePage s pid v)) ! j)
           \<notin> component_id ` set (components s)"
proof -
  define np where "np = generatedId s (generatedCount s)"
  define clonedpage where "clonedpage =
            \<lparr>page_id = np,
             page_name = fst (copy_name pageToClone (find_pages s v)),
             page_handle = snd (copy_name pageToClone (find_pages s v)),
             page_index = page_index pageToClone + 1,
             page_appVersionId = v\<rparr>"
  define s0 where "s0 = s\<lparr>pages := pages s @ [clonedpage], generatedCount := Suc (generatedCount s)\<rparr>"
  define s1 where "s1 = clone_page_events np Map.empty (findAllEventsWithSourceId s0 pid) s0"
  define cs where "cs = pageComponents s pid"
  define R where "R = clone_components np cs Map.empty s1"
  define news where "news = fst R"
  define m where "m = fst (snd R)"
  define clones where "clones = cloned_components s (snd (clonePage s pid v))"
  have res: "snd (clonePage s pid v) = clonePageEventsAndComponents s0 pid np"
    using found by (simp add: clonePage_found Let_def s0_def clonedpage_def np_def)
  have cs0: "pageComponents s0 pid = cs" by (simp add: pageComponents_def s0_def cs_def)
  have inj: "inj (generatedId s)" using fresh by (simp add: generates_fresh_ids_def)
  have fr: "\<And>n. n \<ge> generatedCount s \<Longrightarrow>
      generatedId s n \<noteq> [] \<and> generatedId s n \<notin> component_id ` set (components s)"
    using fresh by (simp add: generates_fresh_ids_def ids_in_use_def)
  have inj0: "inj (generatedId s0)" using inj by (simp add: s0_def)
  have fr0: "\<forall>n\<ge>generatedCount s0. generatedId s0 n \<notin> component_id ` set (components s0)"
    using fr by (simp add: s0_def)
  have "components (clonePageEventsAndComponents s0 pid np) = components s0 @ map (remapped m) news"
    using clonePageEventsAndComponents_components[OF inj0 fr0, of pid np]
    by (simp add: cs0 m_def news_def R_def s1_def)
  then have clones_eq: "clones = map (remapped m) news"
    by (simp add: clones_def cloned_components_def res s0_def)
  have len: "length news = length cs" by (simp add: news_def R_def)
  have dcs: "distinct (map component_id cs)"
    using dist by (simp add: cs_def pageComponents_def distinct_map_filter)
  have i': "i < length cs" and j': "j < length cs" using i j by (simp_all add: cs_def)
  have mj: "m (component_id (cs ! j)) = Some (component_id (news ! j))"
    unfolding m_def news_def R_def using dcs j' by (rule clone_components_map)
  have "set (map component_id news) \<subseteq> generatedId s1 ` {generatedCount s1 ..< generatedCount (snd (snd R))}"
    unfolding news_def R_def by (rule clone_components_ids)
  moreover have "generatedId s1 = generatedId s" "generatedCount s \<le> generatedCount s1"
    by (simp_all add: s1_def s0_def)
  ultimately have new: "component_id ` set news \<subseteq> generatedId s ` {generatedCount s ..}"
    by auto
  have "component_id (news ! j) \<in> component_id ` set news" using j' len by simp
  with new obtain n where n: "n \<ge> generatedCount s" "component_id (news ! j) = generatedId s n"
    by auto
  have ne: "component_id (news ! j) \<noteq> []" and nold: "component_id (news ! j) \<notin> component_id ` set (components s)"
    using fr[OF n(1)] n(2) by simp_all
  have "map component_parent news ! i = map component_parent cs ! i"
    by (simp add: news_def R_def clone_components_copies)
  then have pi: "component_parent (news ! i) = Some (component_id (cs ! j))"
    using i' len par by (simp add: cs_def)
  have "map component_properties news ! i = map component_properties cs ! i"
    by (simp add: news_def R_def clone_components_copies)
  then have props: "component_properties (news ! i) = component_properties (cs ! i)"
    using i' len by simp
  have ri: "remapped m (news ! i) = (news ! i)\<lparr>component_parent := Some (component_id (news ! j))\<rparr>"
    using pi mj ne by (simp add: remapped_def truthy_def)
  have "length clones = length cs" by (simp add: clones_eq len)
  moreover have "component_properties (clones ! i) = component_properties (cs ! i)"
    using i' len props by (simp add: clones_eq ri)
  moreover have "component_parent (clones ! i) = Some (component_id (clones ! j))"
    using i' j' len by (simp add: clones_eq ri)
  moreover have "component_id (clones ! j) \<notin> component_id ` set (components s)"
    using j' len nold by (simp add: clones_eq)
  ultimately show ?thesis by (simp add: clones_def cs_def)
qed

theorem clonePage_parents_witness:
  "findOne widgets_store ''A'' = Some (example_page ''A'' ''Home'' ''home'' 1) \<and>
   distinct (map component_id (components widgets_store)) \<and>
   1 < length (pageComponents widgets_store ''A'') \<and>
   0 < length (pageComponents widgets_store ''A'') \<and>
   component_parent (pageComponents widgets_store ''A'' ! 1) =
     Some (component_id (pageComponents widgets_store ''A'' ! 0)) \<and>
   length (cloned_components widgets_store (snd (clonePage widgets_store ''A'' ''V''))) = 2 \<and>
   component_properties (cloned_components widgets_store (snd (clonePage widgets_store ''A'' ''V'')) ! 1) =
     ''Button'' \<and>
   component_parent (cloned_components widgets_store (snd (clonePage widgets_store ''A'' ''V'')) ! 1) =
     Some (component_id (cloned_components widgets_store (snd (clonePage widgets_store ''A'' ''V'')) ! 0)) \<and>
   component_id (cloned_components widgets_store (snd (clonePage widgets_store ''A'' ''V'')) ! 0)
     \<notin> component_id ` set (components widgets_store)"
proof -
  have pcs: "pageComponents widgets_store ''A'' = components widgets_store"
    by (simp add: pageComponents_def widgets_store_def)
  have h4: "1 < length (pageComponents widgets_store ''A'')"
    and h5: "0 < length (pageComponents widgets_store ''A'')"
    and h6: "component_parent (pageComponents widgets_store ''A'' ! 1) =
               Some (component_id (pageComponents widgets_store ''A'' ! 0))"
    unfolding pcs by (simp_all add: widgets_store_def)
  have v: "length (pageComponents widgets_store ''A'') = 2"
    "component_properties (pageComponents widgets_store ''A'' ! 1) = ''Button''"
    unfolding pcs by (simp_all add: widgets_store_def)
  note r = clonePage_parents[OF widgets_store_home widgets_store_fresh widgets_store_distinct
      h4 h5 h6, of "''V''", unfolded v]
  show ?thesis
    by (rule conjI[OF widgets_store_home
          conjI[OF widgets_store_distinct conjI[OF h4 conjI[OF h5 conjI[OF h6 r]]]]])
qed

subsection \<open>Counting the clone\<close>










lemma remapped_pageId [simp]: "component_pageId (remapped m c) = component_pageId c"
  by (simp add: remapped_def Let_def)




subsection \<open>Events of the page itself\<close>

lemmas clone_defs =
  clonePage_def save_page_def clonePageEventsAndComponents_def clone_page_events_def
  clone_components_def save_clone_def clone_rows_def save_component_def save_layout_def save_event_def remap_event_def
  update_component_parent_def truthy_def pageComponents_def findAllEventsWithSourceId_def
  copy_name_def pageNameORHandleExists_def

text \<open>
  C2 (the code at a failing input). Page \<open>A\<close> has the components \<open>c1\<close> and \<open>c2\<close> and one
  event handler of its own, a \<^verbatim>\<open>control-component\<close> action on \<open>c2\<close>. After \<open>clonePage\<close>
  the clone of \<open>c2\<close> has the id \<open>#3\<close>, and the cloned page's event handler carries no
  component id at all: the events of the page are rewritten through the id map before any
  component has been cloned, while the map is still empty. The event handler of \<open>c2\<close>, a
  \<^verbatim>\<open>control-component\<close> action on \<open>c1\<close>, is rewritten by the second loop and does carry
  the id of the clone of \<open>c1\<close>.
\<close>

theorem clonePage_page_event_target_lost:
  "findAllEventsWithSourceId widgets_store ''A'' =
     [\<lparr>event_id = ''e1'', event_sourceId = ''A'', event_name = ''onPageLoad'',
       event_event = Some (control ''c2'')\<rparr>] \<and>
   map component_id (pageComponents widgets_store ''A'') = [''c1'', ''c2''] \<and>
   map page_id (pages (snd (clonePage widgets_store ''A'' ''V''))) = [''A'', ''#0''] \<and>
   map component_id (pageComponents (snd (clonePage widgets_store ''A'' ''V'')) ''#0'') =
     [''#2'', ''#3''] \<and>
   findAllEventsWithSourceId (snd (clonePage widgets_store ''A'' ''V'')) ''#0'' =
     [\<lparr>event_id = ''#1'', event_sourceId = ''#0'', event_name = ''onPageLoad'',
       event_event = Some \<lparr>actionId = Some ''control-component'', componentId = None,
                            eventOptions = ''show''\<rparr>\<rparr>] \<and>
   findAllEventsWithSourceId (snd (clonePage widgets_store ''A'' ''V'')) ''#3'' =
     [\<lparr>event_id = ''#8'', event_sourceId = ''#3'', event_name = ''onClick'',
       event_event = Some (control ''#2'')\<rparr>]"
  by (simp add: clone_defs widgets_store_def example_page_def example_generatedId_def
      control_def findOne_def find_pages_def decimal.simps digit_def Let_def)

end
